theory Spec2Isabelle
  imports Complex_Main "HOL-Library.Word" "HOL-Library.AList"
begin

unbundle bit_operations_syntax

section \<open>Masks, dictionary and bit shifts of cluster.py\<close>

text \<open>
  The words of the stream are the elements of the tuple \<open>data\<close>, one 32-bit mesytec
  word per element; they are modelled as \<open>32 word\<close>. The values Python stores into its
  integer arrays are read back with \<open>uint\<close>.
\<close>

type_synonym word32 = "32 word"

definition SignatureMask :: word32 where "SignatureMask = 0xC0000000"
definition SubSignatureMask :: word32 where "SubSignatureMask = 0x3FE00000"

definition ModuleMask :: word32 where "ModuleMask = 0x00FF0000"
definition ChannelMask :: word32 where "ChannelMask = 0x001F0000"
definition ADCMask :: word32 where "ADCMask = 0x00003FFF"
definition ExTsMask :: word32 where "ExTsMask = 0x0000FFFF"
definition TimeStampMask :: word32 where "TimeStampMask = 0x3FFFFFFF"
definition WordCountMask :: word32 where "WordCountMask = 0x00000FFF"

definition Header :: word32 where "Header = 0x40000000"
definition Data :: word32 where "Data = 0x00000000"
definition EoE :: word32 where "EoE = 0xC0000000"

definition DataEvent :: word32 where "DataEvent = 0x04000000"
definition DataExTs :: word32 where "DataExTs = 0x04800000"

definition ChannelShift :: nat where "ChannelShift = 16"
definition ModuleShift :: nat where "ModuleShift = 16"
definition ExTsShift :: nat where "ExTsShift = 30"

section \<open>Python errors as values\<close>

datatype error = IndexError | KeyError

definition ebind :: "error + 'a \<Rightarrow> ('a \<Rightarrow> error + 'b) \<Rightarrow> error + 'b" where
  "ebind r f = (case r of Inl e \<Rightarrow> Inl e | Inr v \<Rightarrow> f v)"

text \<open>\<open>xs[i]\<close> for a non-negative index: IndexError out of range.\<close>

definition list_get :: "'a list \<Rightarrow> nat \<Rightarrow> error + 'a" where
  "list_get xs i = (if i < length xs then Inr (xs ! i) else Inl IndexError)"

text \<open>\<open>d[k]\<close> on a dictionary kept as an association list: KeyError on a missing key.\<close>

definition dict_get :: "('k \<times> 'v) list \<Rightarrow> 'k \<Rightarrow> error + 'v" where
  "dict_get d k = (case map_of d k of None \<Rightarrow> Inl KeyError | Some v \<Rightarrow> Inr v)"

section \<open>cluster\_data\<close>

text \<open>
  \<open>events\<close> is a dictionary from column names to numpy integer arrays of length
  \<open>size\<close>. It is an association list in insertion order (the order of the columns of
  the DataFrame); every array is an \<open>int list\<close>.
\<close>

type_synonym frame = "(string \<times> int list) list"

text \<open>
  \<open>ADC_to_Ch\<close> is a dictionary of dictionaries: group name, then raw value, to the
  physical channel.
\<close>

type_synonym cal_table = "int \<rightharpoonup> int"
type_synonym cal = "string \<rightharpoonup> cal_table"

record state =
  events :: frame
  isOpen :: bool
  index :: nat

text \<open>The two layouts; the flag is \<open>window.MG_CNCS.isChecked()\<close>.\<close>

definition attributes :: "bool \<Rightarrow> string list" where
  "attributes mg_cncs =
     (if mg_cncs then
        [''wADC_1'', ''wADC_2'', ''wChADC_1'', ''wChADC_2'',
         ''gADC_1'', ''gADC_2'', ''gChADC_1'', ''gChADC_2'']
      else
        [''gADC_1'', ''gADC_2'', ''gChADC_1'', ''gChADC_2'',
         ''wADC_1'', ''wADC_2'', ''wChADC_1'', ''wChADC_2'',
         ''wADC_3'', ''wADC_4'', ''wChADC_3'', ''wChADC_4''])"

definition channels :: "bool \<Rightarrow> string list" where
  "channels mg_cncs =
     (if mg_cncs then [''wCh_1'', ''wCh_2'', ''gCh_1'', ''gCh_2'']
      else [''wCh_1'', ''wCh_2'', ''wCh_3'', ''wCh_4'', ''gCh_1'', ''gCh_2''])"

definition zeros :: "nat \<Rightarrow> int list" where
  "zeros sz = replicate sz 0"

text \<open>Lines 95 to 101: the dictionary of zero arrays, updated name by name.\<close>

definition init_events :: "bool \<Rightarrow> nat \<Rightarrow> frame" where
  "init_events mg_cncs sz =
     fold (\<lambda>name ev. AList.update name (zeros sz) ev)
       (attributes mg_cncs @ channels mg_cncs)
       [(''Module'', zeros sz), (''ToF'', zeros sz)]"

definition wires_or_grids :: "(string \<times> string) list" where
  "wires_or_grids = [(''w'', ''Wires''), (''g'', ''Grids'')]"

text \<open>\<open>events[name][i] = v\<close>: KeyError on a missing column, IndexError beyond the array.\<close>

definition set_item :: "frame \<Rightarrow> string \<Rightarrow> nat \<Rightarrow> int \<Rightarrow> error + frame" where
  "set_item ev name i v =
     (case map_of ev name of
        None \<Rightarrow> Inl KeyError
      | Some col \<Rightarrow>
          if i < length col then Inr (AList.update name (col[i := v]) ev)
          else Inl IndexError)"

text \<open>\<open>attribute[0:3] + attribute[-2:]\<close>\<close>

definition channel_attribute :: "string \<Rightarrow> string" where
  "channel_attribute attribute = take 3 attribute @ drop (length attribute - 2) attribute"

text \<open>The body of the loop over the words, lines 109 to 134.\<close>

definition body :: "bool \<Rightarrow> cal \<Rightarrow> state \<Rightarrow> word32 \<Rightarrow> error + state" where
  "body mg_cncs ADC_to_Ch s word =
     (if word AND SignatureMask = Header then
        ebind (set_item (events s) ''Module'' (index s)
                 (uint (drop_bit ModuleShift (word AND ModuleMask))))
          (\<lambda>ev. Inr (s\<lparr>events := ev, isOpen := True\<rparr>))
      else if word AND SignatureMask = Data \<and> isOpen s then
        ebind (list_get (attributes mg_cncs)
                 (unat (drop_bit ChannelShift (word AND ChannelMask))))
          (\<lambda>attribute.
        ebind (set_item (events s) attribute (index s) (uint (word AND ADCMask)))
          (\<lambda>ev.
        ebind (dict_get wires_or_grids (take 1 attribute))
          (\<lambda>w_or_g.
        if length attribute = 8 then
          (case ADC_to_Ch w_or_g of
             None \<Rightarrow> Inl KeyError
           | Some tbl \<Rightarrow>
               (case tbl (uint (word AND ADCMask)) of
                  None \<Rightarrow> Inl KeyError
                | Some physical_Ch \<Rightarrow>
                    ebind (set_item ev (channel_attribute attribute) (index s) physical_Ch)
                      (\<lambda>ev'. Inr (s\<lparr>events := ev'\<rparr>))))
        else Inr (s\<lparr>events := ev\<rparr>))))
      else if word AND SignatureMask = EoE \<and> isOpen s then
        ebind (set_item (events s) ''ToF'' (index s) (uint (word AND TimeStampMask)))
          (\<lambda>ev. Inr (s\<lparr>events := ev, isOpen := False, index := index s + 1\<rparr>))
      else Inr s)"

fun cluster_loop :: "bool \<Rightarrow> cal \<Rightarrow> state \<Rightarrow> word32 list \<Rightarrow> error + state" where
  "cluster_loop mg_cncs ADC_to_Ch s [] = Inr s"
| "cluster_loop mg_cncs ADC_to_Ch s (word # rest) =
     ebind (body mg_cncs ADC_to_Ch s word) (\<lambda>s'. cluster_loop mg_cncs ADC_to_Ch s' rest)"

definition init_state :: "bool \<Rightarrow> nat \<Rightarrow> state" where
  "init_state mg_cncs sz =
     \<lparr>events = init_events mg_cncs sz, isOpen = False, index = 0\<rparr>"

text \<open>Lines 137 to 140: every column cut to its first \<open>index\<close> elements.\<close>

definition truncate_events :: "state \<Rightarrow> frame" where
  "truncate_events s = map (\<lambda>(key, col). (key, take (index s) col)) (events s)"

definition cluster_data :: "word32 list \<Rightarrow> cal \<Rightarrow> bool \<Rightarrow> error + frame" where
  "cluster_data data ADC_to_Ch mg_cncs =
     ebind (cluster_loop mg_cncs ADC_to_Ch (init_state mg_cncs (length data)) data)
       (\<lambda>s. Inr (truncate_events s))"

section \<open>get\_ADC\_to\_Ch\<close>

text \<open>
  The delimiters are floating-point numbers read from a spreadsheet. They are modelled
  as rationals (every finite double is one) and \<open>np.linspace\<close> is computed exactly:
  the rounding of the double arithmetic inside \<open>np.linspace\<close> is not modelled, so the
  endpoints are those of the code wherever that arithmetic is exact, as it is on the
  inputs evaluated below (small integers and halves). The channel identifiers of the
  mapping table are taken to be integers.
\<close>

text \<open>
  \<open>np.linspace(start, stop, num)\<close>: \<open>step = (stop - start) / (num - 1)\<close>, the
  elements are \<open>j * step + start\<close>, and the last one is set to \<open>stop\<close>.
\<close>

definition linspace :: "rat \<Rightarrow> rat \<Rightarrow> nat \<Rightarrow> rat list" where
  "linspace start stop num =
     (if num = 0 then []
      else if num = 1 then [start]
      else map (\<lambda>j. of_nat j * ((stop - start) / of_nat (num - 1)) + start) [0..<num - 1]
           @ [stop])"

text \<open>
  \<open>int(round(x))\<close> of Python 3 on a float: the nearest integer, a tie going to the even
  neighbour.
\<close>

definition py_round :: "rat \<Rightarrow> int" where
  "py_round x =
     (let f = \<lfloor>x\<rfloor>; d = x - of_int f
      in if d < 1 / 2 then f
         else if 1 / 2 < d then f + 1
         else if even f then f else f + 1)"

text \<open>Lines 184 and 185: \<open>for k in np.arange(start, stop, 1): ADC_to_Ch[key][k] = channel\<close>\<close>

definition assign_interval :: "cal_table \<Rightarrow> int \<Rightarrow> int \<Rightarrow> int \<Rightarrow> cal_table" where
  "assign_interval tbl start stop channel =
     fold (\<lambda>k t. t(k \<mapsto> channel)) [start..stop - 1] tbl"

text \<open>
  Lines 179 to 186, the loop over \<open>small_delimiters[1:]\<close>; \<open>mapping\<close> is
  \<open>channel_mapping[key]\<close>.
\<close>

fun small_loop ::
  "int list \<Rightarrow> nat \<Rightarrow> nat \<Rightarrow> nat \<Rightarrow> rat \<Rightarrow> rat list \<Rightarrow> cal_table \<Rightarrow> error + cal_table" where
  "small_loop mapping layers i j previous_value [] tbl = Inr tbl"
| "small_loop mapping layers i j previous_value (value # rest) tbl =
     ebind (list_get mapping (i * layers + j))
       (\<lambda>channel.
          small_loop mapping layers i (j + 1) value rest
            (assign_interval tbl (py_round previous_value) (py_round value) channel))"

text \<open>Lines 173 to 186, the loop over the delimiter pairs of one key.\<close>

fun delimiter_loop ::
  "int list \<Rightarrow> nat \<Rightarrow> nat \<Rightarrow> (rat \<times> rat) list \<Rightarrow> cal_table \<Rightarrow> error + cal_table" where
  "delimiter_loop mapping layers i [] tbl = Inr tbl"
| "delimiter_loop mapping layers i ((start, stop) # rest) tbl =
     ebind (list_get mapping i)
       (\<lambda>channel.
          case linspace start stop (layers + 1) of
            [] \<Rightarrow> Inl IndexError
          | previous_value # small_delimiters \<Rightarrow>
              ebind (small_loop mapping layers i 0 previous_value small_delimiters tbl)
                (\<lambda>tbl'. delimiter_loop mapping layers (i + 1) rest tbl'))"

definition layers_dict :: "(string \<times> nat) list" where
  "layers_dict = [(''Wires'', 16), (''Grids'', 12)]"

text \<open>\<open>{i: -1 for i in range(4096)}\<close>\<close>

definition unmapped_table :: cal_table where
  "unmapped_table = (\<lambda>i. if 0 \<le> i \<and> i < 4096 then Some (- 1) else None)"

text \<open>Lines 170 to 186, the loop over the keys of the delimiter table.\<close>

fun key_loop ::
  "(string \<times> int list) list \<Rightarrow> (string \<times> (rat \<times> rat) list) list \<Rightarrow> cal \<Rightarrow> error + cal" where
  "key_loop channel_mapping [] ADC_to_Ch = Inr ADC_to_Ch"
| "key_loop channel_mapping ((key, delimiters) # rest) ADC_to_Ch =
     ebind (dict_get layers_dict key)
       (\<lambda>layers.
          if delimiters = [] then key_loop channel_mapping rest ADC_to_Ch
          else
            ebind (dict_get channel_mapping key)
              (\<lambda>mapping.
                 case ADC_to_Ch key of
                   None \<Rightarrow> Inl KeyError
                 | Some tbl \<Rightarrow>
                     ebind (delimiter_loop mapping layers 0 delimiters tbl)
                       (\<lambda>tbl'. key_loop channel_mapping rest (ADC_to_Ch(key \<mapsto> tbl')))))"

text \<open>
  The two tables that \<open>import_delimiter_table\<close> and \<open>import_channel_mappings\<close> read from
  the spreadsheets are parameters.
\<close>

definition get_ADC_to_Ch ::
  "(string \<times> (rat \<times> rat) list) list \<Rightarrow> (string \<times> int list) list \<Rightarrow> error + cal" where
  "get_ADC_to_Ch delimiters_table channel_mapping =
     key_loop channel_mapping delimiters_table
       [''Wires'' \<mapsto> unmapped_table, ''Grids'' \<mapsto> unmapped_table]"

section \<open>Word kinds\<close>

text \<open>
  The tests and the field extractions of the loop body (lines 109, 111, 115, 117, 118,
  128 and 130), taken without the flag \<open>isOpen\<close>: what the loop reads from a word.
\<close>

datatype WordKind = WHeader word32 | WData word32 word32 | WEndOfEvent word32 | WOther

definition classify :: "word32 \<Rightarrow> WordKind" where
  "classify word =
     (if word AND SignatureMask = Header then
        WHeader (drop_bit ModuleShift (word AND ModuleMask))
      else if word AND SignatureMask = Data then
        WData (drop_bit ChannelShift (word AND ChannelMask)) (word AND ADCMask)
      else if word AND SignatureMask = EoE then
        WEndOfEvent (word AND TimeStampMask)
      else WOther)"

section \<open>Well-shaped states\<close>

text \<open>
  The shape every state of the loop has: the columns are those of the layout, each of
  length \<open>size\<close>.
\<close>

definition state_ok :: "bool \<Rightarrow> nat \<Rightarrow> state \<Rightarrow> bool" where
  "state_ok mg_cncs sz s \<longleftrightarrow>
     map fst (events s) = ''Module'' # ''ToF'' # attributes mg_cncs @ channels mg_cncs
     \<and> list_all (\<lambda>(key, col). length col = sz) (events s)"

section \<open>Well-formed calibration tables\<close>

text \<open>
  What \<open>get_ADC_to_Ch\<close> establishes for the table of a key: an entry for every raw value
  from 0 to 4095, each of them the sentinel or a channel of the mapping of that key.
\<close>

definition table_ok :: "(string \<times> int list) list \<Rightarrow> cal \<Rightarrow> string \<Rightarrow> bool" where
  "table_ok channel_mapping ADC_to_Ch key \<longleftrightarrow>
     (\<exists>tbl. ADC_to_Ch key = Some tbl
        \<and> (\<forall>k. 0 \<le> k \<and> k < 4096 \<longrightarrow> tbl k \<noteq> None)
        \<and> (\<forall>k p. tbl k = Some p \<longrightarrow>
              p = - 1 \<or> (\<exists>mapping. map_of channel_mapping key = Some mapping \<and> p \<in> set mapping)))"

section \<open>Arrays cut to a shorter length\<close>

text \<open>
  The arrays of \<open>events\<close> are allocated with one element per word of the stream; the
  rows beyond \<open>index\<close> are never read. These two functions cut every array to its first
  \<open>m\<close> elements; they serve to compare runs of the loop on arrays of different lengths.
\<close>

definition take_rows :: "nat \<Rightarrow> frame \<Rightarrow> frame" where
  "take_rows m ev = map (\<lambda>(key, col). (key, take m col)) ev"

definition shrink :: "nat \<Rightarrow> state \<Rightarrow> state" where
  "shrink m s = s\<lparr>events := take_rows m (events s)\<rparr>"

section \<open>Streams\<close>

text \<open>
  A stream is well formed when every Header is followed by exactly one EndOfEvent before
  the next Header (or the end of the stream): scanning the stream, \<open>NoHeaderYet\<close> holds
  until the first Header, \<open>AwaitingEoE\<close> after a Header whose EndOfEvent has not come,
  \<open>EventClosed\<close> after that EndOfEvent. An EndOfEvent before the first Header is not
  excluded by these words.
\<close>

datatype phase = NoHeaderYet | AwaitingEoE | EventClosed

fun well_formed_from :: "phase \<Rightarrow> word32 list \<Rightarrow> bool" where
  "well_formed_from ph [] = (ph \<noteq> AwaitingEoE)"
| "well_formed_from ph (w # ws) =
     (if w AND SignatureMask = Header then ph \<noteq> AwaitingEoE \<and> well_formed_from AwaitingEoE ws
      else if w AND SignatureMask = EoE then
        (case ph of
           NoHeaderYet \<Rightarrow> well_formed_from NoHeaderYet ws
         | AwaitingEoE \<Rightarrow> well_formed_from EventClosed ws
         | EventClosed \<Rightarrow> False)
      else well_formed_from ph ws)"

definition well_formed :: "word32 list \<Rightarrow> bool" where
  "well_formed data = well_formed_from NoHeaderYet data"

text \<open>
  Header and EndOfEvent words in strict alternation, from a state with an event open or
  not: the well-formed streams in which no EndOfEvent comes before the first Header.
\<close>

fun alternating :: "bool \<Rightarrow> word32 list \<Rightarrow> bool" where
  "alternating opened [] = (\<not> opened)"
| "alternating opened (w # ws) =
     (if w AND SignatureMask = Header then \<not> opened \<and> alternating True ws
      else if w AND SignatureMask = EoE then opened \<and> alternating False ws
      else alternating opened ws)"

text \<open>
  A word on which the lookups of the Data branch succeed: its channel indexes
  \<open>attributes\<close>, and for an 8-character attribute the table of its group has an entry for
  its adc value. Words of the other kinds satisfy it.
\<close>

definition decodable :: "bool \<Rightarrow> cal \<Rightarrow> word32 \<Rightarrow> bool" where
  "decodable mg_cncs ADC_to_Ch word \<longleftrightarrow>
     (word AND SignatureMask = Data \<longrightarrow>
        unat (drop_bit ChannelShift (word AND ChannelMask)) < length (attributes mg_cncs)
      \<and> (length (attributes mg_cncs ! unat (drop_bit ChannelShift (word AND ChannelMask))) = 8 \<longrightarrow>
           (case dict_get wires_or_grids
                   (take 1 (attributes mg_cncs !
                            unat (drop_bit ChannelShift (word AND ChannelMask)))) of
              Inl e \<Rightarrow> False
            | Inr w_or_g \<Rightarrow>
                (case ADC_to_Ch w_or_g of
                   None \<Rightarrow> False
                 | Some tbl \<Rightarrow> tbl (uint (word AND ADCMask)) \<noteq> None))))"

section \<open>Basic facts\<close>

lemmas mask_defs =
  SignatureMask_def SubSignatureMask_def ModuleMask_def ChannelMask_def ADCMask_def
  TimeStampMask_def Header_def Data_def EoE_def DataEvent_def DataExTs_def
  ChannelShift_def ModuleShift_def

lemma zeros_0: "zeros 0 = []"
  by (simp add: zeros_def)

lemma zeros_Suc: "zeros (Suc n) = 0 # zeros n"
  by (simp add: zeros_def)

lemma zeros_numeral: "zeros (numeral n) = 0 # zeros (pred_numeral n)"
  by (simp add: zeros_def numeral_eq_Suc)

lemmas zeros_simps = zeros_0 zeros_Suc zeros_numeral

lemma ebind_Inr_iff: "ebind r f = Inr y \<longleftrightarrow> (\<exists>v. r = Inr v \<and> f v = Inr y)"
  by (cases r) (simp_all add: ebind_def)

lemma ebind_Inr [simp]: "ebind (Inr v) f = f v"
  by (simp add: ebind_def)

lemma ebind_Inl [simp]: "ebind (Inl e) f = Inl e"
  by (simp add: ebind_def)

lemma set_item_Some:
  "map_of ev name = Some col \<Longrightarrow> i < length col \<Longrightarrow>
   set_item ev name i v = Inr (AList.update name (col[i := v]) ev)"
  by (simp add: set_item_def)

lemma set_item_InrD:
  "set_item ev name i v = Inr ev' \<Longrightarrow>
   \<exists>col. map_of ev name = Some col \<and> i < length col \<and> ev' = AList.update name (col[i := v]) ev"
  by (auto simp add: set_item_def split: option.splits if_splits)

lemma update_keys_present:
  "map_of ev name = Some col \<Longrightarrow> map fst (AList.update name c ev) = map fst ev"
  by (simp add: update_keys) (metis domI dom_map_of_conv_image_fst)

lemma list_all_update:
  "list_all P ev \<Longrightarrow> P (name, c) \<Longrightarrow> list_all P (AList.update name c ev)"
  by (induction ev) auto

lemma map_of_list_all:
  "list_all P ev \<Longrightarrow> map_of ev name = Some col \<Longrightarrow> P (name, col)"
  by (induction ev) (auto split: if_splits)

lemma set_item_ok:
  assumes "set_item ev name i v = Inr ev'"
  shows "map fst ev' = map fst ev"
    and "list_all (\<lambda>(key, col). length col = sz) ev \<Longrightarrow> list_all (\<lambda>(key, col). length col = sz) ev'"
proof -
  from set_item_InrD [OF assms] obtain col where
    c: "map_of ev name = Some col" "i < length col" "ev' = AList.update name (col[i := v]) ev"
    by blast
  show "map fst ev' = map fst ev" using c by (simp add: update_keys_present)
  assume a: "list_all (\<lambda>(key, col). length col = sz) ev"
  from map_of_list_all [OF a c(1)] have "length col = sz" by simp
  with a c show "list_all (\<lambda>(key, col). length col = sz) ev'"
    by (simp add: list_all_update)
qed

lemma init_events_keys:
  "map fst (init_events mg sz) = ''Module'' # ''ToF'' # attributes mg @ channels mg"
  by (cases mg) (simp_all add: init_events_def attributes_def channels_def)

lemma init_events_lengths:
  "list_all (\<lambda>(key, col). length col = sz) (init_events mg sz)"
  by (cases mg) (simp_all add: init_events_def attributes_def channels_def zeros_def)

lemma init_ok: "state_ok mg sz (init_state mg sz)"
  by (simp add: state_ok_def init_state_def init_events_keys init_events_lengths)

lemma body_ok:
  assumes "state_ok mg sz s" "body mg cal s w = Inr s'"
  shows "state_ok mg sz s'"
  using assms
  by (auto simp add: body_def state_ok_def ebind_Inr_iff set_item_ok
      split: if_splits option.splits)

lemma body_index:
  "body mg cal s w = Inr s' \<Longrightarrow> index s \<le> index s' \<and> index s' \<le> index s + 1"
  by (auto simp add: body_def ebind_Inr_iff split: if_splits option.splits)

lemma loop_ok:
  "state_ok mg sz s \<Longrightarrow> cluster_loop mg cal s ws = Inr s' \<Longrightarrow> state_ok mg sz s'"
  by (induction ws arbitrary: s) (auto simp add: ebind_Inr_iff dest: body_ok)

lemma loop_index:
  "cluster_loop mg cal s ws = Inr s' \<Longrightarrow> index s \<le> index s' \<and> index s' \<le> index s + length ws"
proof (induction ws arbitrary: s)
  case Nil
  then show ?case by simp
next
  case (Cons w ws)
  then obtain s1 where 1: "body mg cal s w = Inr s1" and 2: "cluster_loop mg cal s1 ws = Inr s'"
    by (auto simp add: ebind_Inr_iff)
  from body_index [OF 1] Cons.IH [OF 2] show ?case by simp
qed

lemma state_ok_column:
  assumes "state_ok mg sz s" "key \<in> set (''Module'' # ''ToF'' # attributes mg @ channels mg)"
  shows "\<exists>col. map_of (events s) key = Some col \<and> length col = sz"
proof -
  from assms have "key \<in> fst ` set (events s)"
    by (simp only: state_ok_def flip: set_map)
  then obtain col where c: "map_of (events s) key = Some col"
    by (metis domD dom_map_of_conv_image_fst)
  from assms(1) have "list_all (\<lambda>(key, col). length col = sz) (events s)"
    by (simp add: state_ok_def)
  from map_of_list_all [OF this c] c show ?thesis by simp
qed

lemma take_update_same:
  "map_of ev name = Some col \<Longrightarrow>
   map (\<lambda>(key, col). (key, take i col)) (AList.update name (col[i := v]) ev) =
   map (\<lambda>(key, col). (key, take i col)) ev"
  by (induction ev) (auto split: if_splits)

lemma cluster_loop_append:
  "cluster_loop mg cal s (xs @ ys) =
   ebind (cluster_loop mg cal s xs) (\<lambda>s'. cluster_loop mg cal s' ys)"
proof (induction xs arbitrary: s)
  case Nil
  show ?case by simp
next
  case (Cons w xs)
  show ?case
    by (cases "body mg cal s w") (simp_all add: Cons.IH)
qed

lemma reached:
  assumes "cluster_loop mg cal (init_state mg sz) xs = Inr s"
  shows "state_ok mg sz s" and "index s \<le> length xs"
proof -
  show "state_ok mg sz s" by (rule loop_ok [OF init_ok assms])
  from loop_index [OF assms] show "index s \<le> length xs" by (simp add: init_state_def)
qed

lemma body_Header:
  "w AND SignatureMask = Header \<Longrightarrow>
   body mg cal s w =
     ebind (set_item (events s) ''Module'' (index s)
              (uint (drop_bit ModuleShift (w AND ModuleMask))))
       (\<lambda>ev. Inr (s\<lparr>events := ev, isOpen := True\<rparr>))"
  by (simp add: body_def)

lemma body_Data:
  "w AND SignatureMask = Data \<Longrightarrow> isOpen s \<Longrightarrow>
   body mg cal s w =
     ebind (list_get (attributes mg) (unat (drop_bit ChannelShift (w AND ChannelMask))))
       (\<lambda>attribute.
     ebind (set_item (events s) attribute (index s) (uint (w AND ADCMask)))
       (\<lambda>ev.
     ebind (dict_get wires_or_grids (take 1 attribute))
       (\<lambda>w_or_g.
     if length attribute = 8 then
       (case cal w_or_g of
          None \<Rightarrow> Inl KeyError
        | Some tbl \<Rightarrow>
            (case tbl (uint (w AND ADCMask)) of
               None \<Rightarrow> Inl KeyError
             | Some physical_Ch \<Rightarrow>
                 ebind (set_item ev (channel_attribute attribute) (index s) physical_Ch)
                   (\<lambda>ev'. Inr (s\<lparr>events := ev'\<rparr>))))
     else Inr (s\<lparr>events := ev\<rparr>))))"
  by (simp add: body_def Data_def Header_def)

lemma body_EoE:
  "w AND SignatureMask = EoE \<Longrightarrow> isOpen s \<Longrightarrow>
   body mg cal s w =
     ebind (set_item (events s) ''ToF'' (index s) (uint (w AND TimeStampMask)))
       (\<lambda>ev. Inr (s\<lparr>events := ev, isOpen := False, index := index s + 1\<rparr>))"
  by (simp add: body_def Data_def Header_def EoE_def)

lemma body_closed:
  "w AND SignatureMask \<noteq> Header \<Longrightarrow> \<not> isOpen s \<Longrightarrow> body mg cal s w = Inr s"
  by (simp add: body_def)

lemma body_Other:
  "w AND SignatureMask \<noteq> Header \<Longrightarrow> w AND SignatureMask \<noteq> Data \<Longrightarrow>
   w AND SignatureMask \<noteq> EoE \<Longrightarrow> body mg cal s w = Inr s"
  by (simp add: body_def)

lemma classify_body:
  assumes "classify w = classify w'"
  shows "body mg cal s w = body mg cal s w'"
proof (cases "isOpen s")
  case False
  show ?thesis
  proof (cases "w AND SignatureMask = Header")
    case h: True
    with assms have *: "w' AND SignatureMask = Header"
      and **: "drop_bit ModuleShift (w AND ModuleMask) = drop_bit ModuleShift (w' AND ModuleMask)"
      by (auto simp only: classify_def WordKind.inject WordKind.distinct split: if_splits)
    show ?thesis unfolding body_Header [OF h] body_Header [OF *] ** by (rule refl)
  next
    case nh: False
    with assms have "w' AND SignatureMask \<noteq> Header"
      by (auto simp only: classify_def WordKind.inject WordKind.distinct split: if_splits)
    with nh False show ?thesis by (simp add: body_closed)
  qed
next
  case True
  consider (h) "w AND SignatureMask = Header"
    | (d) "w AND SignatureMask \<noteq> Header" "w AND SignatureMask = Data"
    | (e) "w AND SignatureMask \<noteq> Header" "w AND SignatureMask \<noteq> Data" "w AND SignatureMask = EoE"
    | (o) "w AND SignatureMask \<noteq> Header" "w AND SignatureMask \<noteq> Data" "w AND SignatureMask \<noteq> EoE"
    by blast
  then show ?thesis
  proof cases
    case h
    with assms have *: "w' AND SignatureMask = Header"
      and **: "drop_bit ModuleShift (w AND ModuleMask) = drop_bit ModuleShift (w' AND ModuleMask)"
      by (auto simp only: classify_def WordKind.inject WordKind.distinct split: if_splits)
    show ?thesis unfolding body_Header [OF h] body_Header [OF *] ** by (rule refl)
  next
    case d
    with assms have *: "w' AND SignatureMask = Data"
      and **: "drop_bit ChannelShift (w AND ChannelMask) = drop_bit ChannelShift (w' AND ChannelMask)"
      "w AND ADCMask = w' AND ADCMask"
      by (auto simp only: classify_def WordKind.inject WordKind.distinct split: if_splits)
    show ?thesis unfolding body_Data [OF d(2) True] body_Data [OF * True] ** by (rule refl)
  next
    case e
    with assms have *: "w' AND SignatureMask = EoE"
      and **: "w AND TimeStampMask = w' AND TimeStampMask"
      by (auto simp only: classify_def WordKind.inject WordKind.distinct split: if_splits)
    show ?thesis unfolding body_EoE [OF e(3) True] body_EoE [OF * True] ** by (rule refl)
  next
    case o
    with assms have "w' AND SignatureMask \<noteq> Header" "w' AND SignatureMask \<noteq> Data"
      "w' AND SignatureMask \<noteq> EoE"
      by (auto simp only: classify_def WordKind.inject WordKind.distinct split: if_splits)
    with o show ?thesis by (simp add: body_Other)
  qed
qed

subsection \<open>The fields as arithmetic on the unsigned value\<close>

lemma module_field: "uint (drop_bit 16 ((w::word32) AND 0x00FF0000)) = uint w div 65536 mod 256"
proof -
  have m: "push_bit 16 (mask 8) = (0x00FF0000 :: word32)"
    by (simp add: mask_eq_exp_minus_1)
  have "drop_bit 16 (w AND push_bit 16 (mask 8)) = take_bit 8 (drop_bit 16 w)"
    by (rule bit_word_eqI) (auto simp add: bit_simps)
  with m have "drop_bit 16 (w AND 0x00FF0000) = take_bit 8 (drop_bit 16 w)"
    by (simp only:)
  then show ?thesis
    by (simp add: take_bit_eq_mod drop_bit_eq_div uint_div uint_mod)
qed

lemma channel_field: "uint (drop_bit 16 ((w::word32) AND 0x001F0000)) = uint w div 65536 mod 32"
proof -
  have m: "push_bit 16 (mask 5) = (0x001F0000 :: word32)"
    by (simp add: mask_eq_exp_minus_1)
  have "drop_bit 16 (w AND push_bit 16 (mask 5)) = take_bit 5 (drop_bit 16 w)"
    by (rule bit_word_eqI) (auto simp add: bit_simps)
  with m have "drop_bit 16 (w AND 0x001F0000) = take_bit 5 (drop_bit 16 w)"
    by (simp only:)
  then show ?thesis
    by (simp add: take_bit_eq_mod drop_bit_eq_div uint_div uint_mod)
qed

lemma adc_field: "uint ((w::word32) AND 0x3FFF) = uint w mod 16384"
proof -
  have "(0x3FFF :: word32) = mask 14"
    by (simp add: mask_eq_exp_minus_1)
  then have "uint (w AND 0x3FFF) = uint (take_bit 14 w)"
    by (simp only: take_bit_eq_mask)
  then show ?thesis
    by (simp add: take_bit_eq_mod uint_mod)
qed

lemma timestamp_field: "uint ((w::word32) AND 0x3FFFFFFF) = uint w mod 1073741824"
proof -
  have "(0x3FFFFFFF :: word32) = mask 30"
    by (simp add: mask_eq_exp_minus_1)
  then have "uint (w AND 0x3FFFFFFF) = uint (take_bit 30 w)"
    by (simp only: take_bit_eq_mask)
  then show ?thesis
    by (simp add: take_bit_eq_mod uint_mod)
qed

lemma attribute_facts:
  assumes "a \<in> set (attributes mg)"
  shows "a \<in> set (''Module'' # ''ToF'' # attributes mg @ channels mg)"
    and "dict_get wires_or_grids (take 1 a) = Inr ''Wires'' \<or>
         dict_get wires_or_grids (take 1 a) = Inr ''Grids''"
    and "length a = 8 \<Longrightarrow> channel_attribute a \<in> set (channels mg)"
    and "channel_attribute a \<noteq> a"
  using assms
  by (cases mg; auto simp add: attributes_def channels_def dict_get_def wires_or_grids_def
        channel_attribute_def)+

lemma list_get_Inr_iff: "list_get xs i = Inr x \<longleftrightarrow> i < length xs \<and> x = xs ! i"
  by (auto simp add: list_get_def)

lemma body_Data_InrD:
  assumes "w AND SignatureMask = Data" "isOpen s" "body mg cal s w = Inr s'"
  shows "\<exists>ev g. unat (drop_bit ChannelShift (w AND ChannelMask)) < length (attributes mg)
     \<and> set_item (events s) (attributes mg ! unat (drop_bit ChannelShift (w AND ChannelMask)))
           (index s) (uint (w AND ADCMask)) = Inr ev
     \<and> dict_get wires_or_grids
           (take 1 (attributes mg ! unat (drop_bit ChannelShift (w AND ChannelMask)))) = Inr g
     \<and> (if length (attributes mg ! unat (drop_bit ChannelShift (w AND ChannelMask))) = 8
         then \<exists>tbl p ev'. cal g = Some tbl \<and> tbl (uint (w AND ADCMask)) = Some p
               \<and> set_item ev
                    (channel_attribute
                       (attributes mg ! unat (drop_bit ChannelShift (w AND ChannelMask))))
                    (index s) p = Inr ev'
               \<and> s' = s\<lparr>events := ev'\<rparr>
         else s' = s\<lparr>events := ev\<rparr>)"
  using assms(3) unfolding body_Data [OF assms(1,2)]
  by (auto simp add: ebind_Inr_iff list_get_Inr_iff split: if_splits option.splits)

lemma data_word_masked:
  assumes "(w::word32) AND SignatureMask = Data"
  shows "(w AND 0x001F3FFF) AND SignatureMask = Data"
    and "(w AND 0x001F3FFF) AND ChannelMask = w AND ChannelMask"
    and "(w AND 0x001F3FFF) AND ADCMask = w AND ADCMask"
  by (simp_all add: mask_defs and.assoc)

subsection \<open>The calibration table\<close>

lemma assign_interval_apply:
  "assign_interval tbl start stop channel =
     (\<lambda>k. if start \<le> k \<and> k < stop then Some channel else tbl k)"
proof -
  have "fold (\<lambda>k t. t(k \<mapsto> channel)) ks tbl = (\<lambda>k. if k \<in> set ks then Some channel else tbl k)"
    for ks :: "int list"
    by (induction ks arbitrary: tbl) (auto simp add: fun_eq_iff)
  then show ?thesis
    by (auto simp add: assign_interval_def fun_eq_iff)
qed

lemma py_round_tie: "py_round (of_int k + 1 / 2) = (if even k then k else k + 1)"
proof -
  have "\<lfloor>(of_int k :: rat) + 1 / 2\<rfloor> = k" by linarith
  then show ?thesis by (simp add: py_round_def Let_def)
qed

lemma py_round_nearest: "\<bar>of_int (py_round x) - x\<bar> \<le> 1 / 2"
proof -
  define d where "d = x - of_int \<lfloor>x\<rfloor>"
  have d: "0 \<le> d" "d < 1" unfolding d_def by linarith+
  have x: "x = of_int \<lfloor>x\<rfloor> + d" by (simp add: d_def)
  consider "d < 1 / 2" | "1 / 2 < d" | "d = 1 / 2" by linarith
  then show ?thesis
  proof cases
    case 1
    then have "py_round x = \<lfloor>x\<rfloor>" by (simp add: py_round_def Let_def d_def)
    with 1 d show ?thesis unfolding d_def by (simp; linarith?)
  next
    case 2
    then have "py_round x = \<lfloor>x\<rfloor> + 1" by (simp add: py_round_def Let_def d_def)
    with 2 d show ?thesis unfolding d_def by (simp; linarith?)
  next
    case 3
    then have "py_round x = \<lfloor>x\<rfloor> \<or> py_round x = \<lfloor>x\<rfloor> + 1"
      by (simp add: py_round_def Let_def d_def)
    with 3 d show ?thesis unfolding d_def by (elim disjE; simp; linarith?)
  qed
qed

lemma py_round_of_int: "py_round (of_int k) = k"
  by (simp add: py_round_def)

lemma small_loop_entries:
  assumes "small_loop mapping layers i j prev vs tbl = Inr tbl'"
  shows "(tbl k \<noteq> None \<longrightarrow> tbl' k \<noteq> None)
       \<and> (\<forall>p. tbl' k = Some p \<longrightarrow> tbl k = Some p \<or> p \<in> set mapping)"
  using assms
proof (induction vs arbitrary: j prev tbl)
  case Nil
  then show ?case by simp
next
  case (Cons v vs)
  from Cons.prems obtain channel where
    c: "list_get mapping (i * layers + j) = Inr channel"
    and r: "small_loop mapping layers i (j + 1) v vs
              (assign_interval tbl (py_round prev) (py_round v) channel) = Inr tbl'"
    by (auto simp add: ebind_Inr_iff)
  from c have "channel \<in> set mapping" by (auto simp add: list_get_def split: if_splits)
  with Cons.IH [OF r] show ?case
    by (auto simp add: assign_interval_apply split: if_splits)
qed

lemma delimiter_loop_entries:
  assumes "delimiter_loop mapping layers i ds tbl = Inr tbl'"
  shows "(tbl k \<noteq> None \<longrightarrow> tbl' k \<noteq> None)
       \<and> (\<forall>p. tbl' k = Some p \<longrightarrow> tbl k = Some p \<or> p \<in> set mapping)"
  using assms
proof (induction ds arbitrary: i tbl)
  case Nil
  then show ?case by simp
next
  case (Cons d ds)
  obtain start stop where d: "d = (start, stop)" by (cases d)
  from Cons.prems d obtain prev small tbl1 where
    "small_loop mapping layers i 0 prev small tbl = Inr tbl1"
    and r: "delimiter_loop mapping layers (i + 1) ds tbl1 = Inr tbl'"
    by (auto simp add: ebind_Inr_iff split: list.splits)
  from small_loop_entries [OF this(1), of k] Cons.IH [OF r] show ?case
    by auto
qed

lemma key_loop_ok:
  assumes "key_loop channel_mapping dt ADC_to_Ch = Inr cal"
    and "table_ok channel_mapping ADC_to_Ch g"
  shows "table_ok channel_mapping cal g"
  using assms
proof (induction dt arbitrary: ADC_to_Ch)
  case Nil
  then show ?case by simp
next
  case (Cons kd dt)
  obtain key delimiters where kd: "kd = (key, delimiters)" by (cases kd)
  show ?case
  proof (cases "delimiters = []")
    case True
    with Cons.prems kd have "key_loop channel_mapping dt ADC_to_Ch = Inr cal"
      by (auto simp add: ebind_Inr_iff)
    from Cons.IH [OF this Cons.prems(2)] show ?thesis .
  next
    case False
    with Cons.prems(1) kd obtain layers mapping tbl tbl' where
      m: "dict_get channel_mapping key = Inr mapping"
      and t: "ADC_to_Ch key = Some tbl"
      and d: "delimiter_loop mapping layers 0 delimiters tbl = Inr tbl'"
      and r: "key_loop channel_mapping dt (ADC_to_Ch(key \<mapsto> tbl')) = Inr cal"
      by (auto simp add: ebind_Inr_iff split: option.splits)
    from m have m': "map_of channel_mapping key = Some mapping"
      by (auto simp add: dict_get_def split: option.splits)
    have "table_ok channel_mapping (ADC_to_Ch(key \<mapsto> tbl')) g"
    proof (cases "g = key")
      case True
      with Cons.prems(2) t m' delimiter_loop_entries [OF d] show ?thesis
        unfolding table_ok_def by (simp, blast)
    next
      case False
      with Cons.prems(2) show ?thesis by (simp add: table_ok_def)
    qed
    from Cons.IH [OF r this] show ?thesis .
  qed
qed

lemma get_ADC_to_Ch_ok:
  assumes "get_ADC_to_Ch delimiters_table channel_mapping = Inr cal"
    and "g = ''Wires'' \<or> g = ''Grids''"
  shows "table_ok channel_mapping cal g"
proof -
  from assms(2) have "table_ok channel_mapping [''Wires'' \<mapsto> unmapped_table, ''Grids'' \<mapsto> unmapped_table] g"
    by (auto simp add: table_ok_def unmapped_table_def split: if_splits)
  with assms(1) show ?thesis
    unfolding get_ADC_to_Ch_def by (rule key_loop_ok)
qed

lemma floor_rat_numeral_div: "\<lfloor>numeral a / numeral b :: rat\<rfloor> = numeral a div numeral b"
  by (metis floor_divide_of_int_eq of_int_numeral)

lemma floor_rat_one_div: "\<lfloor>1 / numeral b :: rat\<rfloor> = 1 div numeral b"
  by (metis floor_divide_of_int_eq of_int_1 of_int_numeral)

lemmas py_round_eval = py_round_def Let_def floor_rat_numeral_div floor_rat_one_div

subsection \<open>Evaluating the decoder on concrete streams\<close>

lemmas decode_eval =
  cluster_data_def init_state_def init_events_def attributes_def channels_def zeros_simps
  body_def set_item_def list_get_def dict_get_def wires_or_grids_def truncate_events_def
  mask_defs

lemma empty_tables:
  "get_ADC_to_Ch [(''Wires'', []), (''Grids'', [])] [(''Wires'', []), (''Grids'', [])] =
     Inr [''Wires'' \<mapsto> unmapped_table, ''Grids'' \<mapsto> unmapped_table]"
  by (simp add: get_ADC_to_Ch_def dict_get_def layers_dict_def)

subsection \<open>The length of the arrays does not matter\<close>

lemma truncate_events_take_rows: "truncate_events s = take_rows (index s) (events s)"
  by (simp add: truncate_events_def take_rows_def)

lemma take_rows_update:
  "take_rows m (AList.update name col ev) = AList.update name (take m col) (take_rows m ev)"
  by (induction ev) (auto simp add: take_rows_def)

lemma map_of_take_rows: "map_of (take_rows m ev) name = map_option (take m) (map_of ev name)"
  by (induction ev) (auto simp add: take_rows_def)

lemma take_rows_take_rows: "i \<le> m \<Longrightarrow> take_rows i (take_rows m ev) = take_rows i ev"
  by (induction ev) (auto simp add: take_rows_def min_def)

lemma set_item_take_rows:
  assumes "list_all (\<lambda>(key, col). length col = sz) ev" "m \<le> sz" "i < m"
  shows "set_item (take_rows m ev) name i v = map_sum id (take_rows m) (set_item ev name i v)"
proof (cases "map_of ev name")
  case None
  then show ?thesis by (simp add: set_item_def map_of_take_rows)
next
  case (Some col)
  from map_of_list_all [OF assms(1) Some] have "length col = sz" by simp
  with assms Some show ?thesis
    by (simp add: set_item_def map_of_take_rows take_rows_update take_update_swap)
qed

lemma body_shrink:
  assumes "state_ok mg sz s" "m \<le> sz" "index s < m"
  shows "body mg cal (shrink m s) w = map_sum id (shrink m) (body mg cal s w)"
proof -
  from assms(1) have la: "list_all (\<lambda>(key, col). length col = sz) (events s)"
    by (simp add: state_ok_def)
  note si = set_item_take_rows [OF la assms(2,3)]
  have si2: "set_item (take_rows m ev) name (index s) v =
      map_sum id (take_rows m) (set_item ev name (index s) v)"
    if "set_item (events s) a (index s) x = Inr ev" for ev name v a x
    by (rule set_item_take_rows [OF set_item_ok(2) [OF that la] assms(2,3)])
  show ?thesis
  proof (cases "w AND SignatureMask = Header")
    case True
    show ?thesis
      unfolding body_Header [OF True]
      by (cases "set_item (events s) ''Module'' (index s) (uint (drop_bit ModuleShift (w AND ModuleMask)))")
        (simp_all add: shrink_def si)
  next
    case nh: False
    show ?thesis
    proof (cases "isOpen s")
      case False
      then have "\<not> isOpen (shrink m s)" by (simp add: shrink_def)
      with nh False show ?thesis by (simp add: body_closed)
    next
      case True
      then have o: "isOpen (shrink m s)" by (simp add: shrink_def)
      consider (d) "w AND SignatureMask = Data" | (e) "w AND SignatureMask = EoE"
        | (x) "w AND SignatureMask \<noteq> Data" "w AND SignatureMask \<noteq> EoE"
        by blast
      then show ?thesis
      proof cases
        case d
        show ?thesis
          unfolding body_Data [OF d True] body_Data [OF d o]
          by (auto simp add: shrink_def si si2 ebind_def split: sum.splits option.splits)
      next
        case e
        show ?thesis
          unfolding body_EoE [OF e True] body_EoE [OF e o]
          by (cases "set_item (events s) ''ToF'' (index s) (uint (w AND TimeStampMask))")
            (simp_all add: shrink_def si)
      next
        case x
        with nh show ?thesis by (simp add: body_Other)
      qed
    qed
  qed
qed

lemma loop_shrink:
  assumes "state_ok mg sz s" "m \<le> sz" "index s + length ws \<le> m"
  shows "cluster_loop mg cal (shrink m s) ws = map_sum id (shrink m) (cluster_loop mg cal s ws)"
  using assms
proof (induction ws arbitrary: s)
  case Nil
  show ?case by simp
next
  case (Cons w ws)
  from Cons.prems have i: "index s < m" by simp
  note b = body_shrink [OF Cons.prems(1,2) i, of cal w]
  show ?case
  proof (cases "body mg cal s w")
    case (Inl e)
    with b show ?thesis by simp
  next
    case (Inr s1)
    from body_ok [OF Cons.prems(1) Inr] have ok: "state_ok mg sz s1" .
    from body_index [OF Inr] Cons.prems(3) have "index s1 + length ws \<le> m" by simp
    from Cons.IH [OF ok Cons.prems(2) this] b Inr show ?thesis by simp
  qed
qed

lemma take_rows_init_events:
  "m \<le> sz \<Longrightarrow> take_rows m (init_events mg sz) = init_events mg m"
  by (cases mg)
    (simp_all add: init_events_def attributes_def channels_def take_rows_def zeros_def min_def)

lemma shrink_init_state: "m \<le> sz \<Longrightarrow> shrink m (init_state mg sz) = init_state mg m"
  by (simp add: shrink_def init_state_def take_rows_init_events)

lemma truncate_events_shrink: "index s \<le> m \<Longrightarrow> truncate_events (shrink m s) = truncate_events s"
  by (simp add: truncate_events_take_rows shrink_def take_rows_take_rows)

lemma size_irrelevant:
  assumes "length ws \<le> sz"
  shows "ebind (cluster_loop mg cal (init_state mg sz) ws) (\<lambda>s. Inr (truncate_events s)) =
         cluster_data ws cal mg"
proof -
  have "index (init_state mg sz) + length ws \<le> length ws"
    by (simp add: init_state_def)
  from loop_shrink [OF init_ok assms this, of cal]
  have l: "cluster_loop mg cal (init_state mg (length ws)) ws =
      map_sum id (shrink (length ws)) (cluster_loop mg cal (init_state mg sz) ws)"
    by (simp add: shrink_init_state [OF assms])
  show ?thesis
  proof (cases "cluster_loop mg cal (init_state mg sz) ws")
    case (Inl e)
    with l show ?thesis by (simp add: cluster_data_def)
  next
    case (Inr s1)
    from reached(2) [OF Inr] have "index s1 \<le> length ws" .
    with l Inr show ?thesis by (simp add: cluster_data_def truncate_events_shrink)
  qed
qed

lemma set_item_truncate:
  assumes "set_item ev name i v = Inr ev'"
  shows "take_rows i ev' = take_rows i ev"
proof -
  from set_item_InrD [OF assms] obtain col where
    "map_of ev name = Some col" "ev' = AList.update name (col[i := v]) ev"
    by blast
  then show ?thesis
    unfolding take_rows_def by (simp add: take_update_same)
qed

lemma body_no_commit:
  assumes "w AND SignatureMask \<noteq> EoE" "body mg cal s w = Inr s'"
  shows "index s' = index s \<and> truncate_events s' = truncate_events s"
proof (cases "w AND SignatureMask = Header")
  case True
  with assms(2) show ?thesis
    by (auto simp add: body_Header ebind_Inr_iff truncate_events_take_rows set_item_truncate)
next
  case nh: False
  show ?thesis
  proof (cases "w AND SignatureMask = Data \<and> isOpen s")
    case True
    from body_Data_InrD [OF conjunct1 [OF True] conjunct2 [OF True] assms(2)]
    show ?thesis
      by (auto simp add: truncate_events_take_rows set_item_truncate split: if_splits)
  next
    case False
    with nh assms have "s' = s" by (auto simp add: body_def)
    then show ?thesis by simp
  qed
qed

lemma loop_no_commit:
  assumes "list_all (\<lambda>w. w AND SignatureMask \<noteq> EoE) ws" "cluster_loop mg cal s ws = Inr s'"
  shows "index s' = index s \<and> truncate_events s' = truncate_events s"
  using assms
proof (induction ws arbitrary: s)
  case Nil
  then show ?case by simp
next
  case (Cons w ws)
  from Cons.prems(2) obtain s1 where
    b: "body mg cal s w = Inr s1" and r: "cluster_loop mg cal s1 ws = Inr s'"
    by (auto simp add: ebind_Inr_iff)
  from Cons.prems(1) have "w AND SignatureMask \<noteq> EoE"
    "list_all (\<lambda>w. w AND SignatureMask \<noteq> EoE) ws"
    by simp_all
  from body_no_commit [OF this(1) b] Cons.IH [OF this(2) r] show ?case by simp
qed

subsection \<open>Rows and EndOfEvent words\<close>

lemma well_formed_alternating:
  assumes "well_formed_from ph ws"
    and "ph = NoHeaderYet \<longrightarrow>
         list_all (\<lambda>w. w AND SignatureMask \<noteq> EoE)
           (takeWhile (\<lambda>w. w AND SignatureMask \<noteq> Header) ws)"
  shows "alternating (ph = AwaitingEoE) ws"
  using assms
proof (induction ws arbitrary: ph)
  case Nil
  then show ?case by simp
next
  case (Cons w ws)
  show ?case
  proof (cases "w AND SignatureMask = Header")
    case True
    with Cons.prems(1) have "ph \<noteq> AwaitingEoE" "well_formed_from AwaitingEoE ws" by simp_all
    with Cons.IH [of AwaitingEoE] True show ?thesis by simp
  next
    case nh: False
    show ?thesis
    proof (cases "w AND SignatureMask = EoE")
      case True
      with nh Cons.prems have "ph = AwaitingEoE" "well_formed_from EventClosed ws"
        by (cases ph; simp)+
      with Cons.IH [of EventClosed] nh True show ?thesis by simp
    next
      case False
      with nh Cons.prems have "well_formed_from ph ws"
        "ph = NoHeaderYet \<longrightarrow>
         list_all (\<lambda>w. w AND SignatureMask \<noteq> EoE)
           (takeWhile (\<lambda>w. w AND SignatureMask \<noteq> Header) ws)"
        by simp_all
      with Cons.IH [of ph] nh False show ?thesis by simp
    qed
  qed
qed

lemma attribute_not_fixed_column:
  assumes "a \<in> set (attributes mg)"
  shows "a \<noteq> ''Module''" "a \<noteq> ''ToF''"
    "channel_attribute a \<noteq> ''Module''" "channel_attribute a \<noteq> ''ToF''"
  using assms
  by (cases mg; auto simp add: attributes_def channel_attribute_def)+

lemma body_Header_cols:
  assumes "w AND SignatureMask = Header" "body mg cal s w = Inr s1"
    and "map_of (events s) ''ToF'' = Some tof" "map_of (events s) ''Module'' = Some mo"
  shows "isOpen s1 \<and> index s1 = index s \<and> map_of (events s1) ''ToF'' = Some tof
       \<and> map_of (events s1) ''Module'' =
           Some (mo[index s := uint (drop_bit ModuleShift (w AND ModuleMask))])"
  using assms(2-4) unfolding body_Header [OF assms(1)]
  by (auto simp add: ebind_Inr_iff update_conv' dest!: set_item_InrD)

lemma body_EoE_cols:
  assumes "w AND SignatureMask = EoE" "isOpen s" "body mg cal s w = Inr s1"
    and "map_of (events s) ''ToF'' = Some tof" "map_of (events s) ''Module'' = Some mo"
  shows "\<not> isOpen s1 \<and> index s1 = index s + 1
       \<and> map_of (events s1) ''ToF'' = Some (tof[index s := uint (w AND TimeStampMask)])
       \<and> map_of (events s1) ''Module'' = Some mo"
  using assms(3-5) unfolding body_EoE [OF assms(1,2)]
  by (auto simp add: ebind_Inr_iff update_conv' dest!: set_item_InrD)

lemma body_other_cols:
  assumes "w AND SignatureMask \<noteq> Header" "w AND SignatureMask = EoE \<longrightarrow> \<not> isOpen s"
    and "body mg cal s w = Inr s1"
  shows "isOpen s1 = isOpen s \<and> index s1 = index s
       \<and> map_of (events s1) ''ToF'' = map_of (events s) ''ToF''
       \<and> map_of (events s1) ''Module'' = map_of (events s) ''Module''"
proof (cases "w AND SignatureMask = Data \<and> isOpen s")
  case True
  then have d: "w AND SignatureMask = Data" and o: "isOpen s" by simp_all
  let ?a = "attributes mg ! unat (drop_bit ChannelShift (w AND ChannelMask))"
  from body_Data_InrD [OF d o assms(3)] obtain ev g where
    ch: "unat (drop_bit ChannelShift (w AND ChannelMask)) < length (attributes mg)"
    and ev: "set_item (events s) ?a (index s) (uint (w AND ADCMask)) = Inr ev"
    and rest: "if length ?a = 8
         then \<exists>tbl p ev'. cal g = Some tbl \<and> tbl (uint (w AND ADCMask)) = Some p
               \<and> set_item ev (channel_attribute ?a) (index s) p = Inr ev'
               \<and> s1 = s\<lparr>events := ev'\<rparr>
         else s1 = s\<lparr>events := ev\<rparr>"
    by blast
  from ch have mem: "?a \<in> set (attributes mg)" by simp
  note ne = attribute_not_fixed_column [OF mem]
  from set_item_InrD [OF ev] ne(1,2)
  have e: "map_of ev ''ToF'' = map_of (events s) ''ToF''"
    "map_of ev ''Module'' = map_of (events s) ''Module''"
    by (auto simp add: update_conv')
  show ?thesis
  proof (cases "length ?a = 8")
    case True
    with rest obtain p ev' where
      ev': "set_item ev (channel_attribute ?a) (index s) p = Inr ev'" and s1: "s1 = s\<lparr>events := ev'\<rparr>"
      by auto
    from set_item_InrD [OF ev'] ne(3,4)
    have "map_of ev' ''ToF'' = map_of ev ''ToF''" "map_of ev' ''Module'' = map_of ev ''Module''"
      by (auto simp add: update_conv')
    with e s1 show ?thesis by simp
  next
    case False
    with rest have "s1 = s\<lparr>events := ev\<rparr>" by simp
    with e show ?thesis by simp
  qed
next
  case False
  with assms have "s1 = s" by (auto simp add: body_def)
  then show ?thesis by simp
qed

lemma take_Suc_update: "i < length xs \<Longrightarrow> take (Suc i) (xs[i := v]) = take i xs @ [v]"
  by (simp add: take_Suc_conv_app_nth)

lemma loop_columns:
  assumes "state_ok mg sz s" "index s + length ws \<le> sz" "alternating (isOpen s) ws"
    and "cluster_loop mg cal s ws = Inr s'"
    and "map_of (events s) ''ToF'' = Some tof" "map_of (events s) ''Module'' = Some mo"
  shows "\<exists>tof' mo'. map_of (events s') ''ToF'' = Some tof' \<and> map_of (events s') ''Module'' = Some mo'
     \<and> index s' = index s + length (filter (\<lambda>w. w AND SignatureMask = EoE) ws)
     \<and> take (index s') tof' =
         take (index s) tof @
         map (\<lambda>w. uint (w AND TimeStampMask)) (filter (\<lambda>w. w AND SignatureMask = EoE) ws)
     \<and> take (index s') mo' =
         take (if isOpen s then Suc (index s) else index s) mo @
         map (\<lambda>w. uint (drop_bit ModuleShift (w AND ModuleMask)))
           (filter (\<lambda>w. w AND SignatureMask = Header) ws)"
  using assms
proof (induction ws arbitrary: s tof mo)
  case Nil
  then show ?case by simp
next
  case (Cons w ws)
  from Cons.prems(4) obtain s1 where
    b: "body mg cal s w = Inr s1" and r: "cluster_loop mg cal s1 ws = Inr s'"
    by (auto simp add: ebind_Inr_iff)
  from body_ok [OF Cons.prems(1) b] have ok1: "state_ok mg sz s1" .
  from body_index [OF b] Cons.prems(2) have i1: "index s1 + length ws \<le> sz" by simp
  from Cons.prems(2) have i: "index s < sz" by simp
  from state_ok_column [OF Cons.prems(1), of "''ToF''"] Cons.prems(5)
  have lt: "length tof = sz" by simp
  from state_ok_column [OF Cons.prems(1), of "''Module''"] Cons.prems(6)
  have lm: "length mo = sz" by simp
  have he: "Header \<noteq> EoE" by (simp add: mask_defs)
  show ?case
  proof (cases "w AND SignatureMask = Header")
    case True
    with Cons.prems(3) have no: "\<not> isOpen s" and alt: "alternating True ws" by simp_all
    from body_Header_cols [OF True b Cons.prems(5,6)]
    have f: "isOpen s1" "index s1 = index s" "map_of (events s1) ''ToF'' = Some tof"
      "map_of (events s1) ''Module'' =
         Some (mo[index s := uint (drop_bit ModuleShift (w AND ModuleMask))])"
      by simp_all
    from alt f(1) have "alternating (isOpen s1) ws" by simp
    from Cons.IH [OF ok1 i1 this r f(3,4)] f(1,2) True he i lm no show ?thesis
      by (auto simp add: take_Suc_update)
  next
    case nh: False
    show ?thesis
    proof (cases "w AND SignatureMask = EoE")
      case True
      with nh Cons.prems(3) have o: "isOpen s" and alt: "alternating False ws" by simp_all
      from body_EoE_cols [OF True o b Cons.prems(5,6)]
      have f: "\<not> isOpen s1" "index s1 = index s + 1"
        "map_of (events s1) ''ToF'' = Some (tof[index s := uint (w AND TimeStampMask)])"
        "map_of (events s1) ''Module'' = Some mo"
        by simp_all
      from alt f(1) have "alternating (isOpen s1) ws" by simp
      from Cons.IH [OF ok1 i1 this r f(3,4)] f(1,2) True nh i lt o show ?thesis
        by (auto simp add: take_Suc_update)
    next
      case False
      with nh Cons.prems(3) have alt: "alternating (isOpen s) ws" by simp
      from False have "w AND SignatureMask = EoE \<longrightarrow> \<not> isOpen s" by simp
      from body_other_cols [OF nh this b] Cons.prems(5,6)
      have f: "isOpen s1 = isOpen s" "index s1 = index s"
        "map_of (events s1) ''ToF'' = Some tof" "map_of (events s1) ''Module'' = Some mo"
        by simp_all
      from alt f(1) have "alternating (isOpen s1) ws" by simp
      from Cons.IH [OF ok1 i1 this r f(3,4)] f(1,2) False nh show ?thesis
        by auto
    qed
  qed
qed

lemma attribute_group:
  assumes "a \<in> set (attributes mg)"
  shows "dict_get wires_or_grids (take 1 a) = Inr (if take 1 a = ''w'' then ''Wires'' else ''Grids'')"
  using assms
  by (cases mg; auto simp add: attributes_def dict_get_def wires_or_grids_def)

lemma body_returns:
  assumes "state_ok mg sz s" "index s < sz" "decodable mg cal w"
  shows "\<exists>s1. body mg cal s w = Inr s1"
proof -
  have col: "\<exists>col. map_of (events s) key = Some col \<and> index s < length col"
    if "key \<in> set (''Module'' # ''ToF'' # attributes mg @ channels mg)" for key
    using state_ok_column [OF assms(1) that] assms(2) by auto
  show ?thesis
  proof (cases "w AND SignatureMask = Header")
    case True
    from col [of "''Module''"] show ?thesis
      unfolding body_Header [OF True] by (auto simp add: set_item_Some)
  next
    case nh: False
    show ?thesis
    proof (cases "isOpen s")
      case False
      with nh show ?thesis by (simp add: body_closed)
    next
      case True
      consider (d) "w AND SignatureMask = Data" | (e) "w AND SignatureMask = EoE"
        | (x) "w AND SignatureMask \<noteq> Data" "w AND SignatureMask \<noteq> EoE"
        by blast
      then show ?thesis
      proof cases
        case d
        let ?ch = "unat (drop_bit ChannelShift (w AND ChannelMask))"
        let ?a = "attributes mg ! ?ch"
        let ?adc = "uint (w AND ADCMask)"
        let ?g = "if take 1 ?a = ''w'' then ''Wires'' else ''Grids''"
        from assms(3) d have ch: "?ch < length (attributes mg)"
          by (simp add: decodable_def)
        then have mem: "?a \<in> set (attributes mg)" by simp
        note g = attribute_group [OF mem]
        from assms(3) d g have tb: "length ?a = 8 \<Longrightarrow> \<exists>tbl p. cal ?g = Some tbl \<and> tbl ?adc = Some p"
          by (auto simp add: decodable_def split: option.splits)
        from col [OF attribute_facts(1) [OF mem]] obtain c where
          c: "map_of (events s) ?a = Some c" "index s < length c"
          by blast
        let ?ev = "AList.update ?a (c[index s := ?adc]) (events s)"
        from c have ev: "set_item (events s) ?a (index s) ?adc = Inr ?ev"
          by (simp add: set_item_Some)
        show ?thesis
        proof (cases "length ?a = 8")
          case False
          with ch ev g show ?thesis
            unfolding body_Data [OF d True] by (simp add: list_get_def)
        next
          case a8: True
          from tb [OF a8] obtain tbl p where t: "cal ?g = Some tbl" "tbl ?adc = Some p"
            by blast
          from attribute_facts(3) [OF mem a8]
          have "channel_attribute ?a \<in> set (''Module'' # ''ToF'' # attributes mg @ channels mg)"
            by simp
          from col [OF this] attribute_facts(4) [OF mem] obtain cc where
            "map_of ?ev (channel_attribute ?a) = Some cc" "index s < length cc"
            by (auto simp add: update_conv')
          with ch ev g a8 t show ?thesis
            unfolding body_Data [OF d True] by (simp add: list_get_def set_item_Some)
        qed
      next
        case e
        from col [of "''ToF''"] show ?thesis
          unfolding body_EoE [OF e True] by (auto simp add: set_item_Some)
      next
        case x
        with nh show ?thesis by (simp add: body_Other)
      qed
    qed
  qed
qed

lemma loop_returns:
  assumes "state_ok mg sz s" "index s + length ws \<le> sz" "list_all (decodable mg cal) ws"
  shows "\<exists>s'. cluster_loop mg cal s ws = Inr s'"
  using assms
proof (induction ws arbitrary: s)
  case Nil
  show ?case by simp
next
  case (Cons w ws)
  from Cons.prems have "index s < sz" "decodable mg cal w" by simp_all
  from body_returns [OF Cons.prems(1) this] obtain s1 where b: "body mg cal s w = Inr s1"
    by blast
  from body_index [OF b] Cons.prems(2) have "index s1 + length ws \<le> sz" by simp
  from Cons.IH [OF body_ok [OF Cons.prems(1) b] this] Cons.prems(3) b show ?case
    by simp
qed

lemma decode_returns:
  assumes "list_all (decodable mg cal) data"
  shows "\<exists>df. cluster_data data cal mg = Inr df"
proof -
  have "index (init_state mg (length data)) + length data \<le> length data"
    by (simp add: init_state_def)
  from loop_returns [OF init_ok this assms] show ?thesis
    by (auto simp add: cluster_data_def)
qed

lemma take_rows_lengths:
  "list_all (\<lambda>(key, col). length col = sz) ev \<Longrightarrow> m \<le> sz \<Longrightarrow>
   list_all (\<lambda>(key, col). length col = m) (take_rows m ev)"
  by (induction ev) (auto simp add: take_rows_def)

section \<open>Claims\<close>

text \<open>
  C1. What the loop reads from a word is a function of the word alone: the top two bits
  select Header (\<open>0x40000000\<close>), Data (\<open>0x00000000\<close>), EndOfEvent (\<open>0xC0000000\<close>) or
  none of them, with module \<open>(w & 0x00FF0000) >> 16\<close>, channel
  \<open>(w & 0x001F0000) >> 16\<close>, adc \<open>w & 0x00003FFF\<close> and time of flight
  \<open>w & 0x3FFFFFFF\<close>. These fields are bits 16 to 23, 16 to 20, 0 to 13 and 0 to 29 of
  the unsigned value of the word. Two words of the same kind and fields take the loop body
  to the same result from every state.
\<close>

theorem classify_by_signature:
  "classify w =
     (if w AND 0xC0000000 = 0x40000000 then WHeader (drop_bit 16 (w AND 0x00FF0000))
      else if w AND 0xC0000000 = 0x00000000 then
        WData (drop_bit 16 (w AND 0x001F0000)) (w AND 0x00003FFF)
      else if w AND 0xC0000000 = 0xC0000000 then WEndOfEvent (w AND 0x3FFFFFFF)
      else WOther)
   \<and> uint (drop_bit 16 (w AND 0x00FF0000)) = uint w div 65536 mod 256
   \<and> uint (drop_bit 16 (w AND 0x001F0000)) = uint w div 65536 mod 32
   \<and> uint (w AND 0x00003FFF) = uint w mod 16384
   \<and> uint (w AND 0x3FFFFFFF) = uint w mod 1073741824
   \<and> (classify w = classify w' \<longrightarrow> body mg cal s w = body mg cal s w')"
proof (intro conjI impI)
  show "classify w =
     (if w AND 0xC0000000 = 0x40000000 then WHeader (drop_bit 16 (w AND 0x00FF0000))
      else if w AND 0xC0000000 = 0x00000000 then
        WData (drop_bit 16 (w AND 0x001F0000)) (w AND 0x00003FFF)
      else if w AND 0xC0000000 = 0xC0000000 then WEndOfEvent (w AND 0x3FFFFFFF)
      else WOther)"
    by (simp add: classify_def mask_defs)
  show "uint (drop_bit 16 (w AND 0x00FF0000)) = uint w div 65536 mod 256"
    by (rule module_field)
  show "uint (drop_bit 16 (w AND 0x001F0000)) = uint w div 65536 mod 32"
    by (rule channel_field)
  show "uint (w AND 0x00003FFF) = uint w mod 16384"
    by (rule adc_field)
  show "uint (w AND 0x3FFFFFFF) = uint w mod 1073741824"
    by (rule timestamp_field)
next
  assume "classify w = classify w'"
  then show "body mg cal s w = body mg cal s w'"
    by (rule classify_body)
qed

theorem classify_by_signature_witness:
  "classify 0x00000005 = classify 0x3FE00005
   \<and> body True (\<lambda>_. None) (init_state True 1) 0x00000005 =
     body True (\<lambda>_. None) (init_state True 1) 0x3FE00005"
proof -
  have h: "classify 0x00000005 = classify 0x3FE00005"
    by (simp add: classify_def mask_defs)
  from classify_by_signature [of "0x00000005" "0x3FE00005" True "\<lambda>_. None" "init_state True 1"]
  have "classify 0x00000005 = classify 0x3FE00005 \<longrightarrow>
      body True (\<lambda>_. None) (init_state True 1) 0x00000005 =
      body True (\<lambda>_. None) (init_state True 1) 0x3FE00005"
    by (elim conjE)
  with h show ?thesis by (simp only: simp_thms)
qed

text \<open>
  C2, as stated: a well-formed stream would give as many rows as it has EndOfEvent words.
  The stream \<open>[0xC0000007, 0x40000000, 0xC0000009]\<close> is well formed (its one Header is
  followed by exactly one EndOfEvent) and has two EndOfEvent words; its table has one row,
  closed by the second of them.
\<close>

theorem rows_follow_end_of_event_words_counterexample:
  "well_formed [0xC0000007, 0x40000000, 0xC0000009]
   \<and> length (filter (\<lambda>w. w AND SignatureMask = EoE) [0xC0000007, 0x40000000, 0xC0000009]) = 2
   \<and> cluster_data [0xC0000007, 0x40000000, 0xC0000009] (\<lambda>_. None) True =
       Inr [(''Module'', [0]), (''ToF'', [9]), (''wADC_1'', [0]), (''wADC_2'', [0]),
            (''wChADC_1'', [0]), (''wChADC_2'', [0]), (''gADC_1'', [0]), (''gADC_2'', [0]),
            (''gChADC_1'', [0]), (''gChADC_2'', [0]), (''wCh_1'', [0]), (''wCh_2'', [0]),
            (''gCh_1'', [0]), (''gCh_2'', [0])]"
proof (intro conjI)
  show "well_formed [0xC0000007, 0x40000000, 0xC0000009]"
    by (simp add: well_formed_def mask_defs)
  show "length (filter (\<lambda>w. w AND SignatureMask = EoE) [0xC0000007, 0x40000000, 0xC0000009]) = 2"
    by (simp add: mask_defs)
  show "cluster_data [0xC0000007, 0x40000000, 0xC0000009] (\<lambda>_. None) True =
       Inr [(''Module'', [0]), (''ToF'', [9]), (''wADC_1'', [0]), (''wADC_2'', [0]),
            (''wChADC_1'', [0]), (''wChADC_2'', [0]), (''gADC_1'', [0]), (''gADC_2'', [0]),
            (''gChADC_1'', [0]), (''gChADC_2'', [0]), (''wCh_1'', [0]), (''wCh_2'', [0]),
            (''gCh_1'', [0]), (''gCh_2'', [0])]"
    by (simp add: decode_eval)
qed

text \<open>
  C2, amended: for a well-formed stream in which no EndOfEvent word comes before the first
  Header, whenever the decode returns a table, every column has as many rows as the stream
  has EndOfEvent words, row \<open>i\<close> holds the time of flight of the \<open>i\<close>-th EndOfEvent word
  and the module of the \<open>i\<close>-th Header word, in stream order. The decode does return a
  table when the lookups of every Data word succeed.
\<close>

theorem rows_follow_end_of_event_words:
  assumes "well_formed data"
    and "list_all (\<lambda>w. w AND SignatureMask \<noteq> EoE)
           (takeWhile (\<lambda>w. w AND SignatureMask \<noteq> Header) data)"
  shows "(\<forall>df. cluster_data data cal mg = Inr df \<longrightarrow>
            list_all (\<lambda>(key, col).
               length col = length (filter (\<lambda>w. w AND SignatureMask = EoE) data)) df
          \<and> map_of df ''ToF'' =
              Some (map (\<lambda>w. uint (w AND TimeStampMask))
                      (filter (\<lambda>w. w AND SignatureMask = EoE) data))
          \<and> map_of df ''Module'' =
              Some (map (\<lambda>w. uint (drop_bit ModuleShift (w AND ModuleMask)))
                      (filter (\<lambda>w. w AND SignatureMask = Header) data)))
       \<and> (list_all (decodable mg cal) data \<longrightarrow> (\<exists>df. cluster_data data cal mg = Inr df))"
proof (intro conjI allI impI)
  fix df
  assume r: "cluster_data data cal mg = Inr df"
  let ?s0 = "init_state mg (length data)"
  let ?n = "length (filter (\<lambda>w. w AND SignatureMask = EoE) data)"
  from r obtain s' where
    l: "cluster_loop mg cal ?s0 data = Inr s'" and df: "df = take_rows (index s') (events s')"
    by (auto simp add: cluster_data_def ebind_Inr_iff truncate_events_take_rows)
  from well_formed_alternating [OF assms(1) [unfolded well_formed_def]] assms(2)
  have alt: "alternating (isOpen ?s0) data"
    by (simp add: init_state_def)
  have i0: "index ?s0 + length data \<le> length data" "index ?s0 = 0" "\<not> isOpen ?s0"
    by (simp_all add: init_state_def)
  from state_ok_column [OF init_ok, of "''ToF''" mg "length data"] obtain tof where
    tof: "map_of (events ?s0) ''ToF'' = Some tof" by auto
  from state_ok_column [OF init_ok, of "''Module''" mg "length data"] obtain mo where
    mo: "map_of (events ?s0) ''Module'' = Some mo" by auto
  from loop_columns [OF init_ok i0(1) alt l tof mo] i0(2,3) obtain tof' mo' where
    c: "map_of (events s') ''ToF'' = Some tof'" "map_of (events s') ''Module'' = Some mo'"
      "index s' = ?n"
      "take (index s') tof' =
         map (\<lambda>w. uint (w AND TimeStampMask)) (filter (\<lambda>w. w AND SignatureMask = EoE) data)"
      "take (index s') mo' =
         map (\<lambda>w. uint (drop_bit ModuleShift (w AND ModuleMask)))
           (filter (\<lambda>w. w AND SignatureMask = Header) data)"
    by auto
  from reached [OF l] have "list_all (\<lambda>(key, col). length col = length data) (events s')"
    "index s' \<le> length data"
    by (simp_all add: state_ok_def)
  from take_rows_lengths [OF this] df c(3)
  show "list_all (\<lambda>(key, col). length col = ?n) df"
    by simp
  from df c show "map_of df ''ToF'' =
      Some (map (\<lambda>w. uint (w AND TimeStampMask)) (filter (\<lambda>w. w AND SignatureMask = EoE) data))"
    by (simp add: map_of_take_rows)
  from df c show "map_of df ''Module'' =
      Some (map (\<lambda>w. uint (drop_bit ModuleShift (w AND ModuleMask)))
              (filter (\<lambda>w. w AND SignatureMask = Header) data))"
    by (simp add: map_of_take_rows)
next
  assume "list_all (decodable mg cal) data"
  then show "\<exists>df. cluster_data data cal mg = Inr df"
    by (rule decode_returns)
qed

theorem rows_follow_end_of_event_words_witness:
  "well_formed [0x40010000, 0x00000005, 0xC0000007, 0x40020000, 0xC0000009]
   \<and> list_all (\<lambda>w. w AND SignatureMask \<noteq> EoE)
        (takeWhile (\<lambda>w. w AND SignatureMask \<noteq> Header)
           [0x40010000, 0x00000005, 0xC0000007, 0x40020000, 0xC0000009])
   \<and> list_all (decodable True (\<lambda>_. None))
        [0x40010000, 0x00000005, 0xC0000007, 0x40020000, 0xC0000009]
   \<and> (\<exists>df. cluster_data [0x40010000, 0x00000005, 0xC0000007, 0x40020000, 0xC0000009]
               (\<lambda>_. None) True = Inr df
          \<and> list_all (\<lambda>(key, col). length col = 2) df
          \<and> map_of df ''ToF'' = Some [7, 9]
          \<and> map_of df ''Module'' = Some [1, 2])"
proof -
  let ?d = "[0x40010000, 0x00000005, 0xC0000007, 0x40020000, 0xC0000009] :: word32 list"
  have h1: "well_formed ?d"
    by (simp add: well_formed_def mask_defs)
  have h2: "list_all (\<lambda>w. w AND SignatureMask \<noteq> EoE)
        (takeWhile (\<lambda>w. w AND SignatureMask \<noteq> Header) ?d)"
    by (simp add: mask_defs)
  have h3: "list_all (decodable True (\<lambda>_. None)) ?d"
    by (simp add: decodable_def attributes_def mask_defs)
  have e: "filter (\<lambda>w. w AND SignatureMask = EoE) ?d = [0xC0000007, 0xC0000009]"
    "filter (\<lambda>w. w AND SignatureMask = Header) ?d = [0x40010000, 0x40020000]"
    by (simp_all add: mask_defs)
  have len: "length (filter (\<lambda>w. w AND SignatureMask = EoE) ?d) = 2"
    by (simp add: mask_defs)
  note inst = rows_follow_end_of_event_words [OF h1 h2, of "\<lambda>_. None" True]
  from inst h3 obtain df where df: "cluster_data ?d (\<lambda>_. None) True = Inr df"
    by blast
  with inst have a: "list_all (\<lambda>(key, col).
               length col = length (filter (\<lambda>w. w AND SignatureMask = EoE) ?d)) df"
    and b: "map_of df ''ToF'' =
              Some (map (\<lambda>w. uint (w AND TimeStampMask))
                      (filter (\<lambda>w. w AND SignatureMask = EoE) ?d))"
    and c: "map_of df ''Module'' =
              Some (map (\<lambda>w. uint (drop_bit ModuleShift (w AND ModuleMask)))
                      (filter (\<lambda>w. w AND SignatureMask = Header) ?d))"
    by blast+
  from a have "list_all (\<lambda>(key, col). length col = 2) df"
    unfolding len .
  moreover from b have "map_of df ''ToF'' = Some [7, 9]"
    unfolding e by (simp add: mask_defs)
  moreover from c have "map_of df ''Module'' = Some [1, 2]"
    unfolding e by (simp add: mask_defs)
  ultimately have "list_all (\<lambda>(key, col). length col = 2) df
          \<and> map_of df ''ToF'' = Some [7, 9] \<and> map_of df ''Module'' = Some [1, 2]"
    by (intro conjI)
  with df have "\<exists>df. cluster_data ?d (\<lambda>_. None) True = Inr df
          \<and> list_all (\<lambda>(key, col). length col = 2) df
          \<and> map_of df ''ToF'' = Some [7, 9]
          \<and> map_of df ''Module'' = Some [1, 2]"
    by blast
  with h1 h2 h3 show ?thesis by (intro conjI)
qed

text \<open>
  C3, as stated: a Data word whose channel field is at least the number of attributes
  would be skipped and the event would commit on the next EndOfEvent. Under the layout
  with 8 attributes the word \<open>0x00080005\<close> has channel 8, and the decode of
  \<open>[0x40000000, 0x00080005, 0xC0000007]\<close> ends with IndexError: no table is returned.
\<close>

theorem channel_out_of_range_counterexample:
  "length (attributes True) = 8
   \<and> unat (drop_bit 16 ((0x00080005 :: word32) AND 0x001F0000)) = 8
   \<and> (0x00080005 :: word32) AND 0xC0000000 = 0x00000000
   \<and> cluster_data [0x40000000, 0x00080005, 0xC0000007]
        [''Wires'' \<mapsto> unmapped_table, ''Grids'' \<mapsto> unmapped_table] True = Inl IndexError"
proof (intro conjI)
  show "length (attributes True) = 8"
    by (simp add: attributes_def)
  show "unat (drop_bit 16 ((0x00080005 :: word32) AND 0x001F0000)) = 8"
    by simp
  show "(0x00080005 :: word32) AND 0xC0000000 = 0x00000000"
    by simp
  show "cluster_data [0x40000000, 0x00080005, 0xC0000007]
        [''Wires'' \<mapsto> unmapped_table, ''Grids'' \<mapsto> unmapped_table] True = Inl IndexError"
    by (simp add: decode_eval)
qed

text \<open>
  C3, amended: a Data word whose channel field is at least the number of attributes is
  skipped, the state unchanged, only when no event is open. When an event is open the
  lookup \<open>attributes[Channel]\<close> raises IndexError: the loop body fails on that word and the
  whole decode of the stream ends with IndexError, whatever words follow.
\<close>

theorem channel_out_of_range_aborts:
  assumes "cluster_loop mg cal (init_state mg (length (xs @ w # ys))) xs = Inr s"
    and "w AND SignatureMask = Data"
    and "length (attributes mg) \<le> unat (drop_bit 16 (w AND 0x001F0000))"
  shows "(isOpen s \<longrightarrow>
            body mg cal s w = Inl IndexError
          \<and> cluster_data (xs @ w # ys) cal mg = Inl IndexError)
       \<and> (\<not> isOpen s \<longrightarrow> body mg cal s w = Inr s)"
proof (intro conjI impI)
  assume o: "isOpen s"
  from assms(3) show b: "body mg cal s w = Inl IndexError"
    unfolding body_Data [OF assms(2) o] by (simp add: list_get_def mask_defs)
  show "cluster_data (xs @ w # ys) cal mg = Inl IndexError"
    by (simp add: cluster_data_def cluster_loop_append assms(1) b del: length_append)
next
  assume "\<not> isOpen s"
  moreover from assms(2) have "w AND SignatureMask \<noteq> Header"
    by (simp add: mask_defs)
  ultimately show "body mg cal s w = Inr s"
    by (rule body_closed [rotated])
qed

theorem channel_out_of_range_aborts_witness:
  "cluster_loop True (\<lambda>_. None) (init_state True (length ([0x40010000] @ 0x00080005 # [0xC0000007])))
       [0x40010000] =
     Inr \<lparr>events = AList.update ''Module'' [1, 0, 0] (init_events True 3), isOpen = True, index = 0\<rparr>
   \<and> (0x00080005 :: word32) AND SignatureMask = Data
   \<and> length (attributes True) \<le> unat (drop_bit 16 ((0x00080005 :: word32) AND 0x001F0000))
   \<and> isOpen \<lparr>events = AList.update ''Module'' [1, 0, 0] (init_events True 3), isOpen = True, index = 0\<rparr>
   \<and> cluster_data ([0x40010000] @ 0x00080005 # [0xC0000007]) (\<lambda>_. None) True = Inl IndexError"
proof -
  let ?s = "\<lparr>events = AList.update ''Module'' [1, 0, 0] (init_events True 3), isOpen = True, index = 0\<rparr>"
  have h1: "cluster_loop True (\<lambda>_. None)
      (init_state True (length ([0x40010000] @ 0x00080005 # [0xC0000007]))) [0x40010000] = Inr ?s"
    by (simp add: init_state_def init_events_def attributes_def channels_def zeros_simps
        body_def set_item_def mask_defs)
  have h2: "(0x00080005 :: word32) AND SignatureMask = Data" by (simp add: mask_defs)
  have h3: "length (attributes True) \<le> unat (drop_bit 16 ((0x00080005 :: word32) AND 0x001F0000))"
    by (simp add: attributes_def)
  have h4: "isOpen ?s" by simp
  from channel_out_of_range_aborts [OF h1 h2 h3] h4
  have "cluster_data ([0x40010000] @ 0x00080005 # [0xC0000007]) (\<lambda>_. None) True = Inl IndexError"
    by blast
  with h1 h2 h3 h4 show ?thesis by (intro conjI)
qed

text \<open>
  C4, as stated: the calibration lookup would succeed for every 14-bit adc value, -1 being
  recorded when \<open>adc >= 4096\<close>. With the table built from empty delimiter lists, the word
  \<open>0x00021000\<close> (channel 2, the 8-character attribute \<open>wChADC_1\<close>, adc 4096) met in an
  open event ends the decode with KeyError.
\<close>

theorem calibration_lookup_counterexample:
  "get_ADC_to_Ch [(''Wires'', []), (''Grids'', [])] [(''Wires'', []), (''Grids'', [])] =
     Inr [''Wires'' \<mapsto> unmapped_table, ''Grids'' \<mapsto> unmapped_table]
   \<and> attributes True ! unat (drop_bit 16 ((0x00021000 :: word32) AND 0x001F0000)) = ''wChADC_1''
   \<and> uint ((0x00021000 :: word32) AND 0x00003FFF) = 4096
   \<and> cluster_data [0x40000000, 0x00021000, 0xC0000007]
        [''Wires'' \<mapsto> unmapped_table, ''Grids'' \<mapsto> unmapped_table] True = Inl KeyError"
proof (intro conjI)
  show "get_ADC_to_Ch [(''Wires'', []), (''Grids'', [])] [(''Wires'', []), (''Grids'', [])] =
     Inr [''Wires'' \<mapsto> unmapped_table, ''Grids'' \<mapsto> unmapped_table]"
    by (rule empty_tables)
  show "attributes True ! unat (drop_bit 16 ((0x00021000 :: word32) AND 0x001F0000)) = ''wChADC_1''"
    by (simp add: attributes_def)
  show "uint ((0x00021000 :: word32) AND 0x00003FFF) = 4096"
    by simp
  show "cluster_data [0x40000000, 0x00021000, 0xC0000007]
        [''Wires'' \<mapsto> unmapped_table, ''Grids'' \<mapsto> unmapped_table] True = Inl KeyError"
    by (simp add: decode_eval unmapped_table_def)
qed

text \<open>
  C4, amended: with a table built by \<open>get_ADC_to_Ch\<close>, for a Data word that selects an
  8-character attribute while an event is open, the group of the attribute has a table
  with an entry for every raw value from 0 to 4095, each entry being -1 or a channel of the
  group's mapping. If the table has an entry for the adc value, the body returns and that
  entry, -1 included, is stored in the attribute's channel column at the current row; if
  it has none, the lookup raises KeyError.
\<close>

theorem calibration_lookup:
  assumes "get_ADC_to_Ch delimiters_table channel_mapping = Inr cal"
    and "cluster_loop mg cal (init_state mg sz) xs = Inr s" and "length xs < sz"
    and "isOpen s" and "w AND SignatureMask = Data"
    and "unat (drop_bit 16 (w AND 0x001F0000)) < length (attributes mg)"
    and "length (attributes mg ! unat (drop_bit 16 (w AND 0x001F0000))) = 8"
  shows "\<exists>g tbl.
      dict_get wires_or_grids (take 1 (attributes mg ! unat (drop_bit 16 (w AND 0x001F0000))))
        = Inr g
    \<and> cal g = Some tbl
    \<and> (\<forall>k. 0 \<le> k \<and> k < 4096 \<longrightarrow> tbl k \<noteq> None)
    \<and> (\<forall>k p. tbl k = Some p \<longrightarrow>
          p = - 1 \<or> (\<exists>mapping. map_of channel_mapping g = Some mapping \<and> p \<in> set mapping))
    \<and> (case tbl (uint (w AND 0x00003FFF)) of
          None \<Rightarrow> body mg cal s w = Inl KeyError
        | Some p \<Rightarrow>
            \<exists>s' col. body mg cal s w = Inr s' \<and> isOpen s' \<and> index s' = index s
              \<and> map_of (events s')
                   (channel_attribute (attributes mg ! unat (drop_bit 16 (w AND 0x001F0000))))
                 = Some col
              \<and> index s < length col \<and> col ! index s = p)"
proof -
  let ?ch = "unat (drop_bit ChannelShift (w AND ChannelMask))"
  let ?a = "attributes mg ! ?ch"
  let ?adc = "uint (w AND ADCMask)"
  from assms(6,7) have ch: "?ch < length (attributes mg)" and a8: "length ?a = 8"
    by (simp_all add: mask_defs)
  from ch have mem: "?a \<in> set (attributes mg)" by simp
  from attribute_facts(2) [OF mem] obtain g where
    g: "dict_get wires_or_grids (take 1 ?a) = Inr g" and g': "g = ''Wires'' \<or> g = ''Grids''"
    by auto
  from get_ADC_to_Ch_ok [OF assms(1) g'] obtain tbl where
    t: "cal g = Some tbl" and cover: "\<forall>k. 0 \<le> k \<and> k < 4096 \<longrightarrow> tbl k \<noteq> None"
    and vals: "\<forall>k p. tbl k = Some p \<longrightarrow>
          p = - 1 \<or> (\<exists>mapping. map_of channel_mapping g = Some mapping \<and> p \<in> set mapping)"
    unfolding table_ok_def by blast
  from reached [OF assms(2)] assms(3) have ok: "state_ok mg sz s" and i: "index s < sz"
    by simp_all
  from state_ok_column [OF ok attribute_facts(1) [OF mem]] obtain col where
    col: "map_of (events s) ?a = Some col" "length col = sz"
    by blast
  let ?ev = "AList.update ?a (col[index s := ?adc]) (events s)"
  from col i have ev: "set_item (events s) ?a (index s) ?adc = Inr ?ev"
    by (simp add: set_item_Some)
  from attribute_facts(3) [OF mem a8]
  have "channel_attribute ?a \<in> set (''Module'' # ''ToF'' # attributes mg @ channels mg)"
    by simp
  from state_ok_column [OF ok this] obtain ccol where
    ccol: "map_of (events s) (channel_attribute ?a) = Some ccol" "length ccol = sz"
    by blast
  with attribute_facts(4) [OF mem] have ccol': "map_of ?ev (channel_attribute ?a) = Some ccol"
    by (simp add: update_conv')
  have b: "body mg cal s w =
      (case tbl ?adc of
         None \<Rightarrow> Inl KeyError
       | Some p \<Rightarrow> Inr (s\<lparr>events := AList.update (channel_attribute ?a) (ccol[index s := p]) ?ev\<rparr>))"
    unfolding body_Data [OF assms(5,4)]
    using ch a8 ev g t ccol' ccol(2) i
    by (simp add: list_get_def set_item_Some split: option.splits)
  have "case tbl ?adc of
          None \<Rightarrow> body mg cal s w = Inl KeyError
        | Some p \<Rightarrow>
            \<exists>s' col. body mg cal s w = Inr s' \<and> isOpen s' \<and> index s' = index s
              \<and> map_of (events s') (channel_attribute ?a) = Some col
              \<and> index s < length col \<and> col ! index s = p"
  proof (cases "tbl ?adc")
    case None
    with b show ?thesis by simp
  next
    case (Some p)
    with b assms(4) ccol(2) i show ?thesis
      by (simp add: update_conv')
  qed
  with g t cover vals show ?thesis
    unfolding ChannelShift_def ChannelMask_def ADCMask_def by blast
qed

theorem calibration_lookup_witness:
  "get_ADC_to_Ch [(''Wires'', []), (''Grids'', [])] [(''Wires'', []), (''Grids'', [])] =
     Inr [''Wires'' \<mapsto> unmapped_table, ''Grids'' \<mapsto> unmapped_table]
   \<and> cluster_loop True [''Wires'' \<mapsto> unmapped_table, ''Grids'' \<mapsto> unmapped_table]
        (init_state True 2) [0x40010000] =
       Inr \<lparr>events = AList.update ''Module'' [1, 0] (init_events True 2), isOpen = True, index = 0\<rparr>
   \<and> length [0x40010000 :: word32] < 2
   \<and> isOpen \<lparr>events = AList.update ''Module'' [1, 0] (init_events True 2), isOpen = True, index = 0\<rparr>
   \<and> (0x00020005 :: word32) AND SignatureMask = Data
   \<and> unat (drop_bit 16 ((0x00020005 :: word32) AND 0x001F0000)) < length (attributes True)
   \<and> length (attributes True ! unat (drop_bit 16 ((0x00020005 :: word32) AND 0x001F0000))) = 8
   \<and> (\<exists>s' col. body True [''Wires'' \<mapsto> unmapped_table, ''Grids'' \<mapsto> unmapped_table]
          \<lparr>events = AList.update ''Module'' [1, 0] (init_events True 2), isOpen = True, index = 0\<rparr>
          0x00020005 = Inr s'
        \<and> map_of (events s') ''wCh_1'' = Some col \<and> col ! 0 = - 1)"
proof -
  let ?cal = "[''Wires'' \<mapsto> unmapped_table, ''Grids'' \<mapsto> unmapped_table]"
  let ?s = "\<lparr>events = AList.update ''Module'' [1, 0] (init_events True 2), isOpen = True, index = 0\<rparr>"
  let ?w = "0x00020005 :: word32"
  note h0 = empty_tables
  have h1: "cluster_loop True ?cal (init_state True 2) [0x40010000] = Inr ?s"
    by (simp add: init_state_def init_events_def attributes_def channels_def zeros_simps
        body_def set_item_def mask_defs)
  have h2: "length [0x40010000 :: word32] < 2" by simp
  have h3: "isOpen ?s" by simp
  have h4: "?w AND SignatureMask = Data" by (simp add: mask_defs)
  have ch: "unat (drop_bit 16 (?w AND 0x001F0000)) = 2" by simp
  have adc: "uint (?w AND 0x00003FFF) = 5" by simp
  have h5: "unat (drop_bit 16 (?w AND 0x001F0000)) < length (attributes True)"
    and h6: "length (attributes True ! unat (drop_bit 16 (?w AND 0x001F0000))) = 8"
    and a: "attributes True ! unat (drop_bit 16 (?w AND 0x001F0000)) = ''wChADC_1''"
    unfolding ch by (simp_all add: attributes_def)
  have ca: "channel_attribute ''wChADC_1'' = ''wCh_1''"
    by (simp add: channel_attribute_def)
  have g: "dict_get wires_or_grids (take 1 ''wChADC_1'') = Inr ''Wires''"
    by (simp add: dict_get_def wires_or_grids_def)
  have u: "unmapped_table 5 = Some (- 1)" by (simp add: unmapped_table_def)
  from calibration_lookup [OF h0 h1 h2 h3 h4 h5 h6]
  have "\<exists>s' col. body True ?cal ?s ?w = Inr s'
        \<and> map_of (events s') ''wCh_1'' = Some col \<and> col ! 0 = - 1"
    unfolding a adc ca g by (auto simp add: u)
  with h0 h1 h2 h3 h4 h5 h6 show ?thesis by (intro conjI)
qed

text \<open>
  C5. A Header word that arrives while an event is open, in a state the loop has reached:
  the body returns normally, the event stays open and \<open>index\<close> is unchanged, so no row is
  appended (the committed rows are the same); only the entry of the column \<open>Module\<close> at
  \<open>index\<close> is overwritten, with \<open>(w & 0x00FF0000) >> 16\<close>; every other column is unchanged.
  The words that follow are therefore stored into the same row.
\<close>

theorem second_header_keeps_event_open:
  assumes "cluster_loop mg cal (init_state mg sz) xs = Inr s" and "length xs < sz"
    and "isOpen s" and "w AND SignatureMask = Header"
  shows "\<exists>s' col. body mg cal s w = Inr s' \<and> isOpen s' \<and> index s' = index s
           \<and> truncate_events s' = truncate_events s
           \<and> map fst (events s') = map fst (events s)
           \<and> (\<forall>key. key \<noteq> ''Module'' \<longrightarrow> map_of (events s') key = map_of (events s) key)
           \<and> map_of (events s) ''Module'' = Some col
           \<and> map_of (events s') ''Module'' =
               Some (col[index s := uint (drop_bit 16 (w AND 0x00FF0000))])"
proof -
  from reached [OF assms(1)] assms(2) have ok: "state_ok mg sz s" and i: "index s < sz"
    by simp_all
  from state_ok_column [OF ok, of "''Module''"] obtain col where
    c: "map_of (events s) ''Module'' = Some col" "length col = sz"
    by auto
  let ?v = "uint (drop_bit 16 (w AND 0x00FF0000))"
  let ?s' = "s\<lparr>events := AList.update ''Module'' (col[index s := ?v]) (events s), isOpen := True\<rparr>"
  from c i have "body mg cal s w = Inr ?s'"
    by (simp add: body_Header [OF assms(4)] set_item_Some ModuleShift_def ModuleMask_def)
  moreover have "truncate_events ?s' = truncate_events s"
    by (simp add: truncate_events_def take_update_same [OF c(1)])
  moreover have "map fst (events ?s') = map fst (events s)"
    by (simp add: update_keys_present [OF c(1)])
  moreover have "\<forall>key. key \<noteq> ''Module'' \<longrightarrow> map_of (events ?s') key = map_of (events s) key"
    by (simp add: update_conv')
  moreover have "map_of (events ?s') ''Module'' = Some (col[index s := ?v])"
    by (simp add: update_conv')
  ultimately show ?thesis using c(1) assms(3) by auto
qed

theorem second_header_keeps_event_open_witness:
  "cluster_loop True (\<lambda>_. None) (init_state True 2) [0x40010000] =
     Inr \<lparr>events = AList.update ''Module'' [1, 0] (init_events True 2), isOpen = True, index = 0\<rparr>
   \<and> length [0x40010000 :: word32] < 2
   \<and> isOpen \<lparr>events = AList.update ''Module'' [1, 0] (init_events True 2), isOpen = True, index = 0\<rparr>
   \<and> (0x40020000 :: word32) AND SignatureMask = Header
   \<and> (\<exists>s'. body True (\<lambda>_. None)
          \<lparr>events = AList.update ''Module'' [1, 0] (init_events True 2), isOpen = True, index = 0\<rparr>
          0x40020000 = Inr s'
        \<and> isOpen s' \<and> index s' = 0
        \<and> map_of (events s') ''Module'' = Some [2, 0])"
proof -
  let ?s = "\<lparr>events = AList.update ''Module'' [1, 0] (init_events True 2), isOpen = True, index = 0\<rparr>"
  have h1: "cluster_loop True (\<lambda>_. None) (init_state True 2) [0x40010000] = Inr ?s"
    by (simp add: init_state_def init_events_def attributes_def channels_def zeros_simps
        body_def set_item_def mask_defs)
  have h2: "length [0x40010000 :: word32] < 2" by simp
  have h3: "isOpen ?s" by simp
  have h4: "(0x40020000 :: word32) AND SignatureMask = Header" by (simp add: mask_defs)
  have m: "map_of (events ?s) ''Module'' = Some [1, 0]"
    by (simp add: update_conv')
  from second_header_keeps_event_open [OF h1 h2 h3 h4] obtain s' col where
    "body True (\<lambda>_. None) ?s 0x40020000 = Inr s'" "isOpen s'" "index s' = index ?s"
    "map_of (events ?s) ''Module'' = Some col"
    "map_of (events s') ''Module'' =
       Some (col[index ?s := uint (drop_bit 16 ((0x40020000 :: word32) AND 0x00FF0000))])"
    by blast
  with m have "\<exists>s'. body True (\<lambda>_. None) ?s 0x40020000 = Inr s'
        \<and> isOpen s' \<and> index s' = 0 \<and> map_of (events s') ''Module'' = Some [2, 0]"
    by auto
  with h1 h2 h3 h4 show ?thesis by (intro conjI)
qed

text \<open>
  C6. When the words after some point of the stream contain no EndOfEvent word (a Header
  and the Data words of an event that is never closed, for instance), those words add
  nothing to the output: whenever the decode of the whole stream returns a table, it is
  the table decoded from the stream without them, and it does return one when the lookups
  of every Data word succeed. So the unterminated trailing event has no row, and the rows
  are those of the events closed before it.
\<close>

theorem unterminated_event_discarded:
  assumes "list_all (\<lambda>w. w AND SignatureMask \<noteq> EoE) tail"
  shows "(\<forall>df. cluster_data (xs @ tail) cal mg = Inr df \<longrightarrow> cluster_data xs cal mg = Inr df)
       \<and> (list_all (decodable mg cal) (xs @ tail) \<longrightarrow>
            (\<exists>df. cluster_data (xs @ tail) cal mg = Inr df \<and> cluster_data xs cal mg = Inr df))"
proof -
  have d: "cluster_data xs cal mg = Inr df" if r: "cluster_data (xs @ tail) cal mg = Inr df" for df
  proof -
    let ?n = "length (xs @ tail)"
    from r obtain s1 s2 where
      1: "cluster_loop mg cal (init_state mg ?n) xs = Inr s1"
      and 2: "cluster_loop mg cal s1 tail = Inr s2"
      and df: "df = truncate_events s2"
      unfolding cluster_data_def cluster_loop_append
      by (auto simp add: ebind_Inr_iff)
    from loop_no_commit [OF assms 2] df have "df = truncate_events s1" by simp
    moreover have "length xs \<le> ?n" by simp
    from size_irrelevant [OF this, of mg cal] 1
    have "cluster_data xs cal mg = Inr (truncate_events s1)"
      by simp
    ultimately show ?thesis by simp
  qed
  show ?thesis
  proof (intro conjI allI impI)
    fix df
    assume "cluster_data (xs @ tail) cal mg = Inr df"
    then show "cluster_data xs cal mg = Inr df" by (rule d)
  next
    assume "list_all (decodable mg cal) (xs @ tail)"
    from decode_returns [OF this] obtain df where "cluster_data (xs @ tail) cal mg = Inr df"
      by blast
    with d show "\<exists>df. cluster_data (xs @ tail) cal mg = Inr df \<and> cluster_data xs cal mg = Inr df"
      by blast
  qed
qed

theorem unterminated_event_discarded_witness:
  "list_all (\<lambda>w. w AND SignatureMask \<noteq> EoE) [0x40020000, 0x00010006 :: word32]
   \<and> list_all (decodable True (\<lambda>_. None))
        ([0x40010000, 0x00000005, 0xC0000007] @ [0x40020000, 0x00010006])
   \<and> cluster_data ([0x40010000, 0x00000005, 0xC0000007] @ [0x40020000, 0x00010006])
        (\<lambda>_. None) True =
       Inr [(''Module'', [1]), (''ToF'', [7]), (''wADC_1'', [5]), (''wADC_2'', [0]),
            (''wChADC_1'', [0]), (''wChADC_2'', [0]), (''gADC_1'', [0]), (''gADC_2'', [0]),
            (''gChADC_1'', [0]), (''gChADC_2'', [0]), (''wCh_1'', [0]), (''wCh_2'', [0]),
            (''gCh_1'', [0]), (''gCh_2'', [0])]"
proof -
  let ?xs = "[0x40010000, 0x00000005, 0xC0000007] :: word32 list"
  let ?tail = "[0x40020000, 0x00010006] :: word32 list"
  have h1: "list_all (\<lambda>w. w AND SignatureMask \<noteq> EoE) ?tail"
    by (simp add: mask_defs)
  have h2: "list_all (decodable True (\<lambda>_. None)) (?xs @ ?tail)"
    by (simp add: decodable_def attributes_def mask_defs)
  have x: "cluster_data ?xs (\<lambda>_. None) True =
       Inr [(''Module'', [1]), (''ToF'', [7]), (''wADC_1'', [5]), (''wADC_2'', [0]),
            (''wChADC_1'', [0]), (''wChADC_2'', [0]), (''gADC_1'', [0]), (''gADC_2'', [0]),
            (''gChADC_1'', [0]), (''gChADC_2'', [0]), (''wCh_1'', [0]), (''wCh_2'', [0]),
            (''gCh_1'', [0]), (''gCh_2'', [0])]"
    by (simp add: decode_eval)
  from unterminated_event_discarded [OF h1, of ?xs "\<lambda>_. None" True] h2
  obtain df where "cluster_data (?xs @ ?tail) (\<lambda>_. None) True = Inr df"
    "cluster_data ?xs (\<lambda>_. None) True = Inr df"
    by blast
  with x have "cluster_data (?xs @ ?tail) (\<lambda>_. None) True =
       Inr [(''Module'', [1]), (''ToF'', [7]), (''wADC_1'', [5]), (''wADC_2'', [0]),
            (''wChADC_1'', [0]), (''wChADC_2'', [0]), (''gADC_1'', [0]), (''gADC_2'', [0]),
            (''gChADC_1'', [0]), (''gChADC_2'', [0]), (''wCh_1'', [0]), (''wCh_2'', [0]),
            (''gCh_1'', [0]), (''gCh_2'', [0])]"
    by simp
  with h1 h2 show ?thesis by (intro conjI)
qed

text \<open>
  C7, as stated: an endpoint of exactly \<open>k + 0.5\<close> would round to \<open>k + 1\<close> for every
  non-negative \<open>k\<close>. The endpoints 0.5 and 2.5 round to 0 and 2; with the Wires range
  \<open>[0.5, 16.5]\<close>, whose 17 endpoints are \<open>0.5, 1.5, ..., 16.5\<close>, raw values 0 and 1 get the
  first channel and 2 and 3 the third, where rounding half away from zero would leave 0
  unmapped and give 1, 2, 3 the first three channels.
\<close>

theorem round_half_away_counterexample:
  "py_round (0 + 1 / 2) = 0 \<and> py_round (2 + 1 / 2) = 2
   \<and> linspace (1 / 2) (33 / 2) (16 + 1) =
       [1 / 2, 3 / 2, 5 / 2, 7 / 2, 9 / 2, 11 / 2, 13 / 2, 15 / 2, 17 / 2, 19 / 2, 21 / 2,
        23 / 2, 25 / 2, 27 / 2, 29 / 2, 31 / 2, 33 / 2]
   \<and> ebind (get_ADC_to_Ch [(''Wires'', [(1 / 2, 33 / 2)]), (''Grids'', [])]
              [(''Wires'', [100, 101, 102, 103, 104, 105, 106, 107, 108, 109, 110, 111, 112,
                            113, 114, 115]),
               (''Grids'', [])])
        (\<lambda>cal. case cal ''Wires'' of
                  None \<Rightarrow> Inl KeyError
                | Some tbl \<Rightarrow> Inr (map tbl [0, 1, 2, 3]))
      = Inr [Some 100, Some 100, Some 102, Some 102]"
proof (intro conjI)
  show "py_round (0 + 1 / 2) = 0" and "py_round (2 + 1 / 2) = 2"
    by (simp_all add: py_round_eval)
  show l: "linspace (1 / 2) (33 / 2) (16 + 1) =
       [1 / 2, 3 / 2, 5 / 2, 7 / 2, 9 / 2, 11 / 2, 13 / 2, 15 / 2, 17 / 2, 19 / 2, 21 / 2,
        23 / 2, 25 / 2, 27 / 2, 29 / 2, 31 / 2, 33 / 2]"
    by (simp add: linspace_def upt_rec)
  then have l': "linspace (1 / 2) (33 / 2) 17 =
       [1 / 2, 3 / 2, 5 / 2, 7 / 2, 9 / 2, 11 / 2, 13 / 2, 15 / 2, 17 / 2, 19 / 2, 21 / 2,
        23 / 2, 25 / 2, 27 / 2, 29 / 2, 31 / 2, 33 / 2]"
    by simp
  show "ebind (get_ADC_to_Ch [(''Wires'', [(1 / 2, 33 / 2)]), (''Grids'', [])]
              [(''Wires'', [100, 101, 102, 103, 104, 105, 106, 107, 108, 109, 110, 111, 112,
                            113, 114, 115]),
               (''Grids'', [])])
        (\<lambda>cal. case cal ''Wires'' of
                  None \<Rightarrow> Inl KeyError
                | Some tbl \<Rightarrow> Inr (map tbl [0, 1, 2, 3]))
      = Inr [Some 100, Some 100, Some 102, Some 102]"
    by (simp add: get_ADC_to_Ch_def dict_get_def layers_dict_def l' list_get_def py_round_eval
        assign_interval_apply unmapped_table_def)
qed

text \<open>
  C7, amended: each endpoint is rounded to a nearest integer (at most one half away), and a
  tie goes to the even neighbour: \<open>k + 0.5\<close> rounds to \<open>k\<close> when \<open>k\<close> is even and to
  \<open>k + 1\<close> when \<open>k\<close> is odd. The rounded endpoints are the bounds \<open>[lo, hi)\<close> of the raw
  values that one step of the loop over the sub-intervals assigns to its channel.
\<close>

theorem round_half_even:
  "py_round (of_int k + 1 / 2) = (if even k then k else k + 1)
   \<and> \<bar>of_int (py_round x) - x\<bar> \<le> 1 / 2
   \<and> small_loop mapping layers i j previous_value (value # rest) tbl =
       ebind (list_get mapping (i * layers + j))
         (\<lambda>channel.
            small_loop mapping layers i (j + 1) value rest
              (\<lambda>k. if py_round previous_value \<le> k \<and> k < py_round value then Some channel
                    else tbl k))"
proof (intro conjI)
  show "py_round (of_int k + 1 / 2) = (if even k then k else k + 1)"
    by (rule py_round_tie)
  show "\<bar>of_int (py_round x) - x\<bar> \<le> 1 / 2"
    by (rule py_round_nearest)
  show "small_loop mapping layers i j previous_value (value # rest) tbl =
       ebind (list_get mapping (i * layers + j))
         (\<lambda>channel.
            small_loop mapping layers i (j + 1) value rest
              (\<lambda>k. if py_round previous_value \<le> k \<and> k < py_round value then Some channel
                    else tbl k))"
    by (simp add: assign_interval_apply)
qed

text \<open>
  C8. The loop over the delimiter pairs (lines 173 to 186), run with \<open>layers = 3\<close> on the
  single range \<open>[0, 12]\<close> and the channel mapping \<open>[10, 11, 12]\<close>, from the table that
  holds -1 for 0 to 4095: raw values 0 to 3 get channel 10, 4 to 7 get 11, 8 to 11 get
  12, and 12 and every other raw value of 0 to 4095 keep -1.
\<close>

theorem calibration_round_trip:
  "delimiter_loop [10, 11, 12] 3 0 [(0, 12)] unmapped_table =
     Inr (\<lambda>k. if 0 \<le> k \<and> k < 4 then Some 10
              else if 4 \<le> k \<and> k < 8 then Some 11
              else if 8 \<le> k \<and> k < 12 then Some 12
              else if 0 \<le> k \<and> k < 4096 then Some (- 1) else None)"
proof -
  have l: "linspace 0 12 4 = [0, 4, 8, 12]"
    by (simp add: linspace_def upt_rec)
  have r: "py_round 0 = 0" "py_round 4 = 4" "py_round 8 = 8" "py_round 12 = 12"
    using py_round_of_int [of 0] py_round_of_int [of 4] py_round_of_int [of 8]
      py_round_of_int [of 12]
    by simp_all
  show ?thesis
    by (simp add: l list_get_def r assign_interval_apply unmapped_table_def fun_eq_iff)
qed

text \<open>
  C9, as stated: under the layout with 8 attributes, the row decoded from
  \<open>[0x40000000, 0x00000005, 0xC0000007]\<close> would hold in \<open>wChADC_1\<close> the calibrated Wires
  channel of raw value 5. With the table built from empty delimiter lists that channel
  is -1, and the decoded \<open>wChADC_1\<close> is 0.
\<close>

theorem three_word_scenario_counterexample:
  "get_ADC_to_Ch [(''Wires'', []), (''Grids'', [])] [(''Wires'', []), (''Grids'', [])] =
     Inr [''Wires'' \<mapsto> unmapped_table, ''Grids'' \<mapsto> unmapped_table]
   \<and> unmapped_table 5 = Some (- 1)
   \<and> ebind (cluster_data [0x40000000, 0x00000005, 0xC0000007]
              [''Wires'' \<mapsto> unmapped_table, ''Grids'' \<mapsto> unmapped_table] True)
        (\<lambda>df. dict_get df ''wChADC_1'') = Inr [0]"
proof (intro conjI)
  show "get_ADC_to_Ch [(''Wires'', []), (''Grids'', [])] [(''Wires'', []), (''Grids'', [])] =
     Inr [''Wires'' \<mapsto> unmapped_table, ''Grids'' \<mapsto> unmapped_table]"
    by (rule empty_tables)
  show "unmapped_table 5 = Some (- 1)"
    by (simp add: unmapped_table_def)
  show "ebind (cluster_data [0x40000000, 0x00000005, 0xC0000007]
              [''Wires'' \<mapsto> unmapped_table, ''Grids'' \<mapsto> unmapped_table] True)
        (\<lambda>df. dict_get df ''wChADC_1'') = Inr [0]"
    by (simp add: decode_eval)
qed

text \<open>
  C9, amended: whatever the calibration table, decoding
  \<open>[0x40000000, 0x00000005, 0xC0000007]\<close> under the layout with 8 attributes gives exactly
  one row, with \<open>Module = 0\<close>, \<open>ToF = 7\<close>, \<open>wADC_1 = 5\<close> and 0 in every other column,
  \<open>wChADC_1\<close> and \<open>wCh_1\<close> included: channel 0 selects \<open>wADC_1\<close>, whose name has 6
  characters, so the calibration table is not consulted.
\<close>

theorem three_word_scenario:
  "cluster_data [0x40000000, 0x00000005, 0xC0000007] cal True =
     Inr [(''Module'', [0]), (''ToF'', [7]), (''wADC_1'', [5]), (''wADC_2'', [0]),
          (''wChADC_1'', [0]), (''wChADC_2'', [0]), (''gADC_1'', [0]), (''gADC_2'', [0]),
          (''gChADC_1'', [0]), (''gChADC_2'', [0]), (''wCh_1'', [0]), (''wCh_2'', [0]),
          (''gCh_1'', [0]), (''gCh_2'', [0])]"
  by (simp add: decode_eval)

text \<open>
  C10. A word whose top two bits are 00, met while an event is open in a state the loop has
  reached, is handled from its bits 16 to 20 and 0 to 13 alone: the body gives the same
  result on the word with every other bit cleared, so the sub-signature bits (those of an
  Extended-Timestamp word \<open>0x04800000\<close> included) are never inspected. Whenever the body
  returns, bits 16 to 20 are an index into \<open>attributes\<close>, the low 14 bits are stored in that
  attribute's column at the current row, and the event stays open on the same row; and it
  does return when the index selects an attribute whose name is not 8 characters long.
\<close>

theorem data_word_ignores_sub_signature:
  assumes "cluster_loop mg cal (init_state mg sz) xs = Inr s" and "length xs < sz"
    and "isOpen s" and "w AND SignatureMask = Data"
  shows "body mg cal s w = body mg cal s (w AND 0x001F3FFF)
     \<and> (\<forall>s'. body mg cal s w = Inr s' \<longrightarrow>
            unat (drop_bit 16 (w AND 0x001F0000)) < length (attributes mg)
          \<and> isOpen s' \<and> index s' = index s
          \<and> (\<exists>col. map_of (events s') (attributes mg ! unat (drop_bit 16 (w AND 0x001F0000)))
                      = Some col
                \<and> index s < length col \<and> col ! index s = uint (w AND 0x00003FFF)))
     \<and> (unat (drop_bit 16 (w AND 0x001F0000)) < length (attributes mg)
          \<and> length (attributes mg ! unat (drop_bit 16 (w AND 0x001F0000))) \<noteq> 8
        \<longrightarrow> (\<exists>s'. body mg cal s w = Inr s'))"
proof (intro conjI allI impI)
  show "body mg cal s w = body mg cal s (w AND 0x001F3FFF)"
    unfolding body_Data [OF assms(4,3)] body_Data [OF data_word_masked(1) [OF assms(4)] assms(3)]
      data_word_masked(2,3) [OF assms(4)]
    by (rule refl)
next
  fix s'
  assume r: "body mg cal s w = Inr s'"
  let ?ch = "unat (drop_bit ChannelShift (w AND ChannelMask))"
  let ?a = "attributes mg ! ?ch"
  let ?adc = "uint (w AND ADCMask)"
  from body_Data_InrD [OF assms(4,3) r] obtain ev g where
    ch: "?ch < length (attributes mg)"
    and ev: "set_item (events s) ?a (index s) ?adc = Inr ev"
    and rest: "if length ?a = 8
         then \<exists>tbl p ev'. cal g = Some tbl \<and> tbl ?adc = Some p
               \<and> set_item ev (channel_attribute ?a) (index s) p = Inr ev'
               \<and> s' = s\<lparr>events := ev'\<rparr>
         else s' = s\<lparr>events := ev\<rparr>"
    by blast
  from set_item_InrD [OF ev] obtain col where
    col: "map_of (events s) ?a = Some col" "index s < length col"
      "ev = AList.update ?a (col[index s := ?adc]) (events s)"
    by blast
  from ch have mem: "?a \<in> set (attributes mg)" by simp
  have ev_a: "map_of ev ?a = Some (col[index s := ?adc])"
    using col(3) by (simp add: update_conv')
  have "isOpen s' \<and> index s' = index s \<and> map_of (events s') ?a = Some (col[index s := ?adc])"
  proof (cases "length ?a = 8")
    case True
    with rest obtain p ev' where
      ev': "set_item ev (channel_attribute ?a) (index s) p = Inr ev'" and s': "s' = s\<lparr>events := ev'\<rparr>"
      by auto
    from set_item_InrD [OF ev'] obtain col' where
      "ev' = AList.update (channel_attribute ?a) (col'[index s := p]) ev"
      by blast
    with ev_a attribute_facts(4) [OF mem] have "map_of ev' ?a = Some (col[index s := ?adc])"
      by (simp add: update_conv')
    with s' assms(3) show ?thesis by simp
  next
    case False
    with rest have "s' = s\<lparr>events := ev\<rparr>" by simp
    with ev_a assms(3) show ?thesis by simp
  qed
  with col(2) ch
  show "unat (drop_bit 16 (w AND 0x001F0000)) < length (attributes mg)"
    and "isOpen s'" and "index s' = index s"
    and "\<exists>col. map_of (events s') (attributes mg ! unat (drop_bit 16 (w AND 0x001F0000)))
                      = Some col
                \<and> index s < length col \<and> col ! index s = uint (w AND 0x00003FFF)"
    by (simp_all add: mask_defs)
next
  let ?ch = "unat (drop_bit ChannelShift (w AND ChannelMask))"
  let ?a = "attributes mg ! ?ch"
  assume "unat (drop_bit 16 (w AND 0x001F0000)) < length (attributes mg)
          \<and> length (attributes mg ! unat (drop_bit 16 (w AND 0x001F0000))) \<noteq> 8"
  then have ch: "?ch < length (attributes mg)" and n8: "length ?a \<noteq> 8"
    by (simp_all add: mask_defs)
  from ch have mem: "?a \<in> set (attributes mg)" by simp
  from reached [OF assms(1)] assms(2) have ok: "state_ok mg sz s" and i: "index s < sz"
    by simp_all
  from state_ok_column [OF ok attribute_facts(1) [OF mem]] obtain col where
    "map_of (events s) ?a = Some col" "length col = sz"
    by blast
  with i have "set_item (events s) ?a (index s) (uint (w AND ADCMask)) =
      Inr (AList.update ?a (col[index s := uint (w AND ADCMask)]) (events s))"
    by (simp add: set_item_Some)
  with ch n8 attribute_facts(2) [OF mem] show "\<exists>s'. body mg cal s w = Inr s'"
    unfolding body_Data [OF assms(4,3)]
    by (auto simp add: list_get_def)
qed

theorem data_word_ignores_sub_signature_witness:
  "cluster_loop True (\<lambda>_. None) (init_state True 2) [0x40010000] =
     Inr \<lparr>events = AList.update ''Module'' [1, 0] (init_events True 2), isOpen = True, index = 0\<rparr>
   \<and> length [0x40010000 :: word32] < 2
   \<and> isOpen \<lparr>events = AList.update ''Module'' [1, 0] (init_events True 2), isOpen = True, index = 0\<rparr>
   \<and> (0x04810005 :: word32) AND SignatureMask = Data
   \<and> (0x04810005 :: word32) AND SubSignatureMask = DataExTs
   \<and> unat (drop_bit 16 ((0x04810005 :: word32) AND 0x001F0000)) < length (attributes True)
   \<and> length (attributes True ! unat (drop_bit 16 ((0x04810005 :: word32) AND 0x001F0000))) \<noteq> 8
   \<and> (\<exists>s'. body True (\<lambda>_. None)
          \<lparr>events = AList.update ''Module'' [1, 0] (init_events True 2), isOpen = True, index = 0\<rparr>
          0x04810005 = Inr s'
        \<and> isOpen s' \<and> index s' = 0
        \<and> (\<exists>col. map_of (events s') ''wADC_2'' = Some col \<and> col ! 0 = 5))"
proof -
  let ?s = "\<lparr>events = AList.update ''Module'' [1, 0] (init_events True 2), isOpen = True, index = 0\<rparr>"
  let ?w = "0x04810005 :: word32"
  have h1: "cluster_loop True (\<lambda>_. None) (init_state True 2) [0x40010000] = Inr ?s"
    by (simp add: init_state_def init_events_def attributes_def channels_def zeros_simps
        body_def set_item_def mask_defs)
  have h2: "length [0x40010000 :: word32] < 2" by simp
  have h3: "isOpen ?s" by simp
  have h4: "?w AND SignatureMask = Data" by (simp add: mask_defs)
  have h5: "?w AND SubSignatureMask = DataExTs" by (simp add: mask_defs)
  have ch: "unat (drop_bit 16 (?w AND 0x001F0000)) = 1" by simp
  have adc: "uint (?w AND 0x00003FFF) = 5" by simp
  have h6: "unat (drop_bit 16 (?w AND 0x001F0000)) < length (attributes True)"
    and h7: "length (attributes True ! unat (drop_bit 16 (?w AND 0x001F0000))) \<noteq> 8"
    and a: "attributes True ! unat (drop_bit 16 (?w AND 0x001F0000)) = ''wADC_2''"
    unfolding ch by (simp_all add: attributes_def)
  note inst = data_word_ignores_sub_signature [OF h1 h2 h3 h4]
  from inst h6 h7 obtain s' where r: "body True (\<lambda>_. None) ?s ?w = Inr s'"
    by blast
  with inst have "isOpen s' \<and> index s' = index ?s
      \<and> (\<exists>col. map_of (events s') (attributes True ! unat (drop_bit 16 (?w AND 0x001F0000)))
                  = Some col
            \<and> col ! index ?s = uint (?w AND 0x00003FFF))"
    by blast
  then have "isOpen s' \<and> index s' = 0 \<and> (\<exists>col. map_of (events s') ''wADC_2'' = Some col \<and> col ! 0 = 5)"
    unfolding a adc by simp
  with r have "\<exists>s'. body True (\<lambda>_. None) ?s ?w = Inr s' \<and> isOpen s' \<and> index s' = 0
        \<and> (\<exists>col. map_of (events s') ''wADC_2'' = Some col \<and> col ! 0 = 5)"
    by blast
  with h1 h2 h3 h4 h5 h6 h7 show ?thesis by (intro conjI)
qed

end
